theory Spec2Isabelle
  imports Main "HOL-Library.Multiset"
begin

section \<open>Python values and errors\<close>

text \<open>
  The values that reach \<^verbatim>\<open>excel_wrapper.py\<close>: \<^verbatim>\<open>None\<close>, strings, integers and the
  built-in containers. A string is a list of code points below 256 (one \<open>char\<close> per
  code point); \<open>PSet xs\<close> is a set that iterates in the order \<open>xs\<close>, \<open>PDict kvs\<close> a
  dictionary that iterates in the order of \<open>kvs\<close>. Booleans, floats and dates are
  outside the model.
\<close>

datatype pyval =
    PNone
  | PStr string
  | PInt int
  | PList "pyval list"
  | PTuple "pyval list"
  | PSet "pyval list"
  | PDict "(pyval \<times> pyval) list"

text \<open>
  Exceptions carry their class and message. The messages of exceptions that the
  source raises itself are the source's; those of exceptions raised by the interpreter
  are abbreviated. A function that can raise returns \<open>error + 'a\<close>, with \<open>Inl\<close> for
  the exception; a method that changes the wrapper before it raises returns the changed
  wrapper next to the exception.
\<close>

datatype error =
    TypeError string
  | ValueError string
  | IndexError string
  | KeyError string
  | AttributeError string
  | RuntimeError string
  | StopIteration string
  | SystemExit string

section \<open>Built-in operations\<close>

text \<open>\<^verbatim>\<open>isinstance(x, (list, tuple, set))\<close>\<close>

fun isinstance_seq :: "pyval \<Rightarrow> bool" where
  "isinstance_seq (PList _) = True"
| "isinstance_seq (PTuple _) = True"
| "isinstance_seq (PSet _) = True"
| "isinstance_seq _ = False"

text \<open>\<^verbatim>\<open>len(x)\<close>\<close>

fun py_len :: "pyval \<Rightarrow> error + nat" where
  "py_len (PStr s) = Inr (length s)"
| "py_len (PList xs) = Inr (length xs)"
| "py_len (PTuple xs) = Inr (length xs)"
| "py_len (PSet xs) = Inr (length xs)"
| "py_len (PDict kvs) = Inr (length kvs)"
| "py_len PNone = Inl (TypeError ''object has no len()'')"
| "py_len (PInt _) = Inl (TypeError ''object has no len()'')"

text \<open>Iteration, as \<^verbatim>\<open>list(x)\<close>, a \<^verbatim>\<open>for\<close> loop and a comprehension perform it.\<close>

fun py_iter :: "pyval \<Rightarrow> error + pyval list" where
  "py_iter (PStr s) = Inr (map (\<lambda>c. PStr [c]) s)"
| "py_iter (PList xs) = Inr xs"
| "py_iter (PTuple xs) = Inr xs"
| "py_iter (PSet xs) = Inr xs"
| "py_iter (PDict kvs) = Inr (map fst kvs)"
| "py_iter PNone = Inl (TypeError ''object is not iterable'')"
| "py_iter (PInt _) = Inl (TypeError ''object is not iterable'')"

text \<open>\<^verbatim>\<open>x[0]\<close>\<close>

fun getitem0 :: "pyval \<Rightarrow> error + pyval" where
  "getitem0 (PList []) = Inl (IndexError ''list index out of range'')"
| "getitem0 (PList (x # _)) = Inr x"
| "getitem0 (PTuple []) = Inl (IndexError ''tuple index out of range'')"
| "getitem0 (PTuple (x # _)) = Inr x"
| "getitem0 (PStr []) = Inl (IndexError ''string index out of range'')"
| "getitem0 (PStr (c # _)) = Inr (PStr [c])"
| "getitem0 (PSet _) = Inl (TypeError ''set object is not subscriptable'')"
| "getitem0 (PDict kvs) =
     (case map_of kvs (PInt 0) of None \<Rightarrow> Inl (KeyError ''0'') | Some v \<Rightarrow> Inr v)"
| "getitem0 PNone = Inl (TypeError ''object is not subscriptable'')"
| "getitem0 (PInt _) = Inl (TypeError ''object is not subscriptable'')"

text \<open>\<^verbatim>\<open>xs[i]\<close> on a list: a negative index counts from the end.\<close>

definition getitem :: "'a list \<Rightarrow> int \<Rightarrow> error + 'a" where
  "getitem xs i =
     (if 0 \<le> i \<and> i < int (length xs) then Inr (xs ! nat i)
      else if i < 0 \<and> - i \<le> int (length xs) then Inr (xs ! nat (int (length xs) + i))
      else Inl (IndexError ''list index out of range''))"

text \<open>
  What \<^verbatim>\<open>set(...)\<close> accepts as an element. On hashable values of this model
  Python's \<^verbatim>\<open>==\<close> is structural equality.
\<close>

fun hashable :: "pyval \<Rightarrow> bool" where
  "hashable PNone = True"
| "hashable (PStr _) = True"
| "hashable (PInt _) = True"
| "hashable (PTuple xs) = list_all hashable xs"
| "hashable (PList _) = False"
| "hashable (PSet _) = False"
| "hashable (PDict _) = False"

text \<open>Truth value, as \<^verbatim>\<open>not x\<close> and \<^verbatim>\<open>x and y\<close> test it.\<close>

fun truthy :: "pyval \<Rightarrow> bool" where
  "truthy PNone = False"
| "truthy (PStr s) = (s \<noteq> [])"
| "truthy (PInt i) = (i \<noteq> 0)"
| "truthy (PList xs) = (xs \<noteq> [])"
| "truthy (PTuple xs) = (xs \<noteq> [])"
| "truthy (PSet xs) = (xs \<noteq> [])"
| "truthy (PDict kvs) = (kvs \<noteq> [])"

text \<open>A comprehension whose body can raise: the first exception ends it.\<close>

fun try_map :: "('a \<Rightarrow> error + 'b) \<Rightarrow> 'a list \<Rightarrow> error + 'b list" where
  "try_map f [] = Inr []"
| "try_map f (x # xs) =
     (case f x of
        Inl e \<Rightarrow> Inl e
      | Inr y \<Rightarrow> (case try_map f xs of Inl e \<Rightarrow> Inl e | Inr ys \<Rightarrow> Inr (y # ys)))"

text \<open>
  A \<^verbatim>\<open>dict\<close> keeps its keys in insertion order: an association list in which
  storing under a present key replaces the value in place and storing under a new key
  appends.
\<close>

definition dict_get :: "('k \<times> 'v) list \<Rightarrow> 'k \<Rightarrow> 'v option" where
  "dict_get d k = map_of d k"

fun dict_set :: "('k \<times> 'v) list \<Rightarrow> 'k \<Rightarrow> 'v \<Rightarrow> ('k \<times> 'v) list" where
  "dict_set [] k v = [(k, v)]"
| "dict_set ((k', v') # d) k v = (if k' = k then (k, v) # d else (k', v') # dict_set d k v)"

definition setdefault :: "('k \<times> 'v) list \<Rightarrow> 'k \<Rightarrow> 'v \<Rightarrow> ('k \<times> 'v) list" where
  "setdefault d k v = (case dict_get d k of None \<Rightarrow> dict_set d k v | Some _ \<Rightarrow> d)"

fun first_index :: "('a \<Rightarrow> bool) \<Rightarrow> 'a list \<Rightarrow> nat option" where
  "first_index P [] = None"
| "first_index P (x # xs) =
     (if P x then Some 0 else map_option Suc (first_index P xs))"

subsection \<open>\<^verbatim>\<open>str(x)\<close>\<close>

definition digit_char :: "nat \<Rightarrow> char" where
  "digit_char n = char_of (48 + n)"

fun dec_nat :: "nat \<Rightarrow> string" where
  "dec_nat n = (if n < 10 then [digit_char n] else dec_nat (n div 10) @ [digit_char (n mod 10)])"

declare dec_nat.simps [simp del]

definition dec_int :: "int \<Rightarrow> string" where
  "dec_int i = (if i < 0 then CHR ''-'' # dec_nat (nat (- i)) else dec_nat (nat i))"

definition hex_char :: "nat \<Rightarrow> char" where
  "hex_char n = (if n < 10 then char_of (48 + n) else char_of (87 + n))"

definition printable :: "char \<Rightarrow> bool" where
  "printable c =
     (let n = of_char c :: nat in (32 \<le> n \<and> n < 127) \<or> (161 \<le> n \<and> n \<noteq> 173))"

definition repr_char :: "char \<Rightarrow> char \<Rightarrow> string" where
  "repr_char quote c =
     (if c = quote \<or> c = CHR 0x5C then [CHR 0x5C, c]
      else if c = CHR 0x09 then [CHR 0x5C, CHR ''t'']
      else if c = CHR 0x0A then [CHR 0x5C, CHR ''n'']
      else if c = CHR 0x0D then [CHR 0x5C, CHR ''r'']
      else if printable c then [c]
      else [CHR 0x5C, CHR ''x'', hex_char (of_char c div 16), hex_char (of_char c mod 16)])"

definition repr_str :: "string \<Rightarrow> string" where
  "repr_str s =
     (let quote = (if CHR 0x27 \<in> set s \<and> CHR 0x22 \<notin> set s then CHR 0x22 else CHR 0x27)
      in quote # concat (map (repr_char quote) s) @ [quote])"

fun str_join :: "string \<Rightarrow> string list \<Rightarrow> string" where
  "str_join sep [] = []"
| "str_join sep [x] = x"
| "str_join sep (x # y # ys) = x @ sep @ str_join sep (y # ys)"

fun py_repr :: "pyval \<Rightarrow> string" where
  "py_repr PNone = ''None''"
| "py_repr (PStr s) = repr_str s"
| "py_repr (PInt i) = dec_int i"
| "py_repr (PList xs) = ''['' @ str_join '', '' (map py_repr xs) @ '']''"
| "py_repr (PTuple xs) =
     (case xs of
        [x] \<Rightarrow> ''('' @ py_repr x @ '',)''
      | _ \<Rightarrow> ''('' @ str_join '', '' (map py_repr xs) @ '')'')"
| "py_repr (PSet xs) =
     (if xs = [] then ''set()'' else ''{'' @ str_join '', '' (map py_repr xs) @ ''}'')"
| "py_repr (PDict kvs) =
     ''{'' @ str_join '', '' (map (\<lambda>(k, v). py_repr k @ '': '' @ py_repr v) kvs) @ ''}''"

fun py_str :: "pyval \<Rightarrow> string" where
  "py_str (PStr s) = s"
| "py_str v = py_repr v"

section \<open>Column letters: \<^verbatim>\<open>ExcelWrapper._col_to_excel\<close>\<close>

text \<open>
  \<^verbatim>\<open>
  excel_col = str(); div = col
  while div:
      (div, mod) = divmod(div - 1, 26)
      excel_col = chr(mod + 65) + excel_col
  return excel_col
  \<close>
  Python's \<^verbatim>\<open>divmod\<close> floors, as \<open>div\<close> and \<open>mod\<close> on \<open>int\<close> do. The loop has no
  bound, so the model is a partial function: \<open>None\<close> stands for a loop that never exits.
\<close>

partial_function (option) col_loop :: "int \<Rightarrow> string \<Rightarrow> string option" where
  "col_loop d excel_col =
     (if d \<noteq> 0
      then col_loop ((d - 1) div 26) (char_of ((d - 1) mod 26 + 65) # excel_col)
      else Some excel_col)"

declare col_loop.simps [code]

definition col_to_excel :: "int \<Rightarrow> string option" where
  "col_to_excel col = col_loop col []"

text \<open>
  The spec's words, for comparison: a bijective base-26 numeral is a string over the
  letters \<open>A\<close> to \<open>Z\<close>, the letters standing for the digits 1 to 26, read most
  significant letter first.
\<close>

definition letter_digit :: "char \<Rightarrow> int" where
  "letter_digit c = of_char c - 64"

definition is_letters :: "string \<Rightarrow> bool" where
  "is_letters s = list_all (\<lambda>c. 1 \<le> letter_digit c \<and> letter_digit c \<le> 26) s"

definition letters_value :: "string \<Rightarrow> int" where
  "letters_value s = foldl (\<lambda>v c. 26 * v + letter_digit c) 0 s"

section \<open>The table store\<close>

text \<open>
  \<^verbatim>\<open>self.output_data\<close> maps a sheet name to
  \<^verbatim>\<open>{'headers': [...], 'data': [...]}\<close>, to which \<^verbatim>\<open>sort_data\<close> adds the key
  \<^verbatim>\<open>'sort_keys'\<close>. The class-level dictionaries \<^verbatim>\<open>table_styles\<close>,
  \<^verbatim>\<open>cell_styles\<close> and \<^verbatim>\<open>frozen_columns\<close> are part of the state, as is what the
  methods print. Header names, formulas and colours passed to \<^verbatim>\<open>format_cells\<close> and
  \<^verbatim>\<open>freeze_column_after\<close> are strings, as their signatures say.
\<close>

record sheet =
  headers :: "pyval list"
  data :: "pyval list list"
  sort_keys :: "int list option"

record cell_rule =
  rule :: string
  bg_color :: string

text \<open>
  Modelled from the spec: the rendering engine is not part of the repository. Its
  \<^verbatim>\<open>Rule(type=..., dxf=DifferentialStyle(fill=PatternFill(bgColor=...)),
  formula=..., stopIfTrue=...)\<close> is an expression rule with a fill colour; the record
  keeps the arguments the rule was built from.
\<close>

record cf_rule =
  rule_type :: string
  fill_bgColor :: string
  formula :: pyval
  stopIfTrue :: bool

record wrapper =
  output_data :: "(string \<times> sheet) list"
  table_styles :: "(string \<times> cf_rule list) list"
  cell_styles :: "(string \<times> (string \<times> cell_rule list) list) list"
  frozen_columns :: "(string \<times> string) list"
  table_style :: string
  stdout :: "string list"

definition empty_wrapper :: wrapper where
  "empty_wrapper =
     \<lparr>output_data = [], table_styles = [], cell_styles = [], frozen_columns = [],
      table_style = ''TableStyleMedium9'', stdout = []\<rparr>"

text \<open>
  \<^verbatim>\<open>
  def _create_sheet(self, sheet_name):
      if sheet_name not in self.output_data:
          self.output_data[sheet_name] = {'headers': [], 'data': []}
  \<close>
\<close>

definition create_sheet :: "wrapper \<Rightarrow> string \<Rightarrow> wrapper" where
  "create_sheet w sheet_name =
     (if sheet_name \<notin> fst ` set (output_data w)
      then w\<lparr>output_data :=
               dict_set (output_data w) sheet_name \<lparr>headers = [], data = [], sort_keys = None\<rparr>\<rparr>
      else w)"

text \<open>
  \<^verbatim>\<open>
  def add_headers(self, sheet_name, data):
      self._create_sheet(sheet_name)
      data_list = list(data)
      if len(data_list) != len(set(data_list)):
          raise ValueError('Duplicate Header Found.')
      self.output_data[sheet_name]['headers'] = data_list
  \<close>
\<close>

definition add_headers :: "wrapper \<Rightarrow> string \<Rightarrow> pyval \<Rightarrow> (error + unit) \<times> wrapper" where
  "add_headers w sheet_name d =
     (let w1 = create_sheet w sheet_name in
      case py_iter d of
        Inl e \<Rightarrow> (Inl e, w1)
      | Inr data_list \<Rightarrow>
          if \<not> list_all hashable data_list then (Inl (TypeError ''unhashable type''), w1)
          else if length data_list \<noteq> length (remdups data_list)
          then (Inl (ValueError ''Duplicate Header Found.''), w1)
          else (case dict_get (output_data w1) sheet_name of
                  None \<Rightarrow> (Inl (KeyError sheet_name), w1)
                | Some sh \<Rightarrow>
                    (Inr (),
                     w1\<lparr>output_data :=
                          dict_set (output_data w1) sheet_name (sh\<lparr>headers := data_list\<rparr>)\<rparr>)))"

text \<open>
  \<^verbatim>\<open>
  def add_data(self, sheet_name, data):
      self._create_sheet(sheet_name)
      if not isinstance(data, (list, tuple, set)):
          raise TypeError('Invalid Data Type, Requires List, Tuple, or Set')
      if isinstance(data[0], (list, tuple, set)):
          for batch_row in data:
              if len(batch_row) != len(self.output_data[sheet_name]['headers']):
                  raise ValueError('Invalid Data Found, Column Count Mismatch')
              self.output_data[sheet_name]['data'].append(
                  [item if item is not None else "" for item in batch_row])
      elif len(data) == len(self.output_data[sheet_name]['headers']):
          self.output_data[sheet_name]['data'].append(
              [item if item is not None else "" for item in data])
      else:
          raise ValueError('Invalid Data Found, Column Count Mismatch')
  \<close>
\<close>

definition none_to_empty :: "pyval \<Rightarrow> pyval" where
  "none_to_empty item = (if item \<noteq> PNone then item else PStr [])"

definition len_headers :: "wrapper \<Rightarrow> string \<Rightarrow> error + nat" where
  "len_headers w sheet_name =
     (case dict_get (output_data w) sheet_name of
        None \<Rightarrow> Inl (KeyError sheet_name)
      | Some sh \<Rightarrow> Inr (length (headers sh)))"

definition append_row :: "wrapper \<Rightarrow> string \<Rightarrow> pyval list \<Rightarrow> (error + unit) \<times> wrapper" where
  "append_row w sheet_name r =
     (case dict_get (output_data w) sheet_name of
        None \<Rightarrow> (Inl (KeyError sheet_name), w)
      | Some sh \<Rightarrow>
          (Inr (),
           w\<lparr>output_data := dict_set (output_data w) sheet_name (sh\<lparr>data := data sh @ [r]\<rparr>)\<rparr>))"

fun add_batch :: "wrapper \<Rightarrow> string \<Rightarrow> pyval list \<Rightarrow> (error + unit) \<times> wrapper" where
  "add_batch w sheet_name [] = (Inr (), w)"
| "add_batch w sheet_name (batch_row # rest) =
     (case py_len batch_row of
        Inl e \<Rightarrow> (Inl e, w)
      | Inr n \<Rightarrow>
         (case len_headers w sheet_name of
            Inl e \<Rightarrow> (Inl e, w)
          | Inr hc \<Rightarrow>
              if n \<noteq> hc
              then (Inl (ValueError ''Invalid Data Found, Column Count Mismatch''), w)
              else (case py_iter batch_row of
                      Inl e \<Rightarrow> (Inl e, w)
                    | Inr items \<Rightarrow>
                       (case append_row w sheet_name (map none_to_empty items) of
                          (Inl e, w') \<Rightarrow> (Inl e, w')
                        | (Inr _, w') \<Rightarrow> add_batch w' sheet_name rest))))"

definition add_data :: "wrapper \<Rightarrow> string \<Rightarrow> pyval \<Rightarrow> (error + unit) \<times> wrapper" where
  "add_data w sheet_name d =
     (let w1 = create_sheet w sheet_name in
      if \<not> isinstance_seq d
      then (Inl (TypeError ''Invalid Data Type, Requires List, Tuple, or Set''), w1)
      else
        case getitem0 d of
          Inl e \<Rightarrow> (Inl e, w1)
        | Inr first \<Rightarrow>
            if isinstance_seq first
            then (case py_iter d of
                    Inl e \<Rightarrow> (Inl e, w1)
                  | Inr batch \<Rightarrow> add_batch w1 sheet_name batch)
            else
              (case py_len d of
                 Inl e \<Rightarrow> (Inl e, w1)
               | Inr n \<Rightarrow>
                  (case len_headers w1 sheet_name of
                     Inl e \<Rightarrow> (Inl e, w1)
                   | Inr hc \<Rightarrow>
                      if n = hc
                      then (case py_iter d of
                              Inl e \<Rightarrow> (Inl e, w1)
                            | Inr items \<Rightarrow> append_row w1 sheet_name (map none_to_empty items))
                      else (Inl (ValueError ''Invalid Data Found, Column Count Mismatch''), w1))))"

text \<open>
  \<^verbatim>\<open>
  def _merge_data(self, sheet_name):
      return_data = [self.output_data.get(sheet_name).get('headers')]
      header_count = len(self.output_data.get(sheet_name).get('headers'))
      if not header_count:
          raise SystemExit(f'No Headers Found: {sheet_name}')
      for data in self.output_data.get(sheet_name).get('data'):
          if header_count != len(data):
              raise SystemExit('Invalid Data Found, Column Count Mismatch')
          return_data.append(data)
      return return_data
  \<close>
\<close>

fun check_rows :: "nat \<Rightarrow> pyval list list \<Rightarrow> pyval list list \<Rightarrow> error + pyval list list" where
  "check_rows header_count [] return_data = Inr return_data"
| "check_rows header_count (d # rest) return_data =
     (if header_count \<noteq> length d
      then Inl (SystemExit ''Invalid Data Found, Column Count Mismatch'')
      else check_rows header_count rest (return_data @ [d]))"

definition merge_data :: "wrapper \<Rightarrow> string \<Rightarrow> error + pyval list list" where
  "merge_data w sheet_name =
     (case dict_get (output_data w) sheet_name of
        None \<Rightarrow> Inl (AttributeError ''NoneType object has no attribute get'')
      | Some sh \<Rightarrow>
          (let return_data = [headers sh];
               header_count = length (headers sh)
           in if header_count = 0
              then Inl (SystemExit (''No Headers Found: '' @ sheet_name))
              else check_rows header_count (data sh) return_data))"

text \<open>What a sheet holds; a sheet that was never created holds nothing.\<close>

definition sheet_rows :: "wrapper \<Rightarrow> string \<Rightarrow> pyval list list" where
  "sheet_rows w sheet_name =
     (case dict_get (output_data w) sheet_name of None \<Rightarrow> [] | Some sh \<Rightarrow> data sh)"

definition sheet_headers :: "wrapper \<Rightarrow> string \<Rightarrow> pyval list" where
  "sheet_headers w sheet_name =
     (case dict_get (output_data w) sheet_name of None \<Rightarrow> [] | Some sh \<Rightarrow> headers sh)"

section \<open>Natural sort: \<^verbatim>\<open>natural_sort_multiple_columns\<close>\<close>

text \<open>
  \<^verbatim>\<open>
  def natural_sort_key(s):
      return [int(text) if text.isdigit() else text.lower()
              for text in re.split('([0-9]+)', s)]
  data.sort(key=lambda x: [natural_sort_key(str(x[key])) for key in sort_keys])
  \<close>
  The pattern \<^verbatim>\<open>[0-9]\<close> matches the ten ASCII digits only. \<^verbatim>\<open>str.isdigit\<close> also
  accepts the other characters that Unicode calls digits; below 256 these are the
  superscripts \<open>U+00B2\<close>, \<open>U+00B3\<close> and \<open>U+00B9\<close>. \<^verbatim>\<open>int\<close> accepts decimal digits
  only, so it raises on a superscript. \<^verbatim>\<open>str.lower\<close> maps \<open>A\<close> to \<open>Z\<close> and the
  capital letters of Latin-1 (\<open>U+00C0\<close> to \<open>U+00DE\<close> without \<open>U+00D7\<close>) 32 code
  points up. Integers are unbounded; the interpreter's configurable limit on the
  length of a decimal literal is not modelled.
\<close>

definition is_ascii_digit :: "char \<Rightarrow> bool" where
  "is_ascii_digit c = (48 \<le> (of_char c :: nat) \<and> (of_char c :: nat) \<le> 57)"

definition is_digit_char :: "char \<Rightarrow> bool" where
  "is_digit_char c = (is_ascii_digit c \<or> c = CHR 0xB2 \<or> c = CHR 0xB3 \<or> c = CHR 0xB9)"

definition isdigit :: "string \<Rightarrow> bool" where
  "isdigit s = (s \<noteq> [] \<and> list_all is_digit_char s)"

text \<open>\<^verbatim>\<open>int(s)\<close> for a string of digit characters.\<close>

definition py_int :: "string \<Rightarrow> error + int" where
  "py_int s =
     (if s \<noteq> [] \<and> list_all is_ascii_digit s
      then Inr (foldl (\<lambda>v c. 10 * v + (of_char c - 48)) 0 s)
      else Inl (ValueError ''invalid literal for int() with base 10''))"

definition lower_char :: "char \<Rightarrow> char" where
  "lower_char c =
     (let n = of_char c :: nat
      in if (65 \<le> n \<and> n \<le> 90) \<or> (192 \<le> n \<and> n \<le> 222 \<and> n \<noteq> 215)
         then char_of (n + 32) else c)"

definition lower :: "string \<Rightarrow> string" where
  "lower s = map lower_char s"

text \<open>
  \<^verbatim>\<open>re.split('([0-9]+)', s)\<close>: the spans between the digit runs (empty where a run
  starts or ends the string) and, the group being captured, the runs themselves.
\<close>

function re_split_digits :: "string \<Rightarrow> string list" where
  "re_split_digits s =
     (let span = takeWhile (\<lambda>c. \<not> is_ascii_digit c) s;
          rest = dropWhile (\<lambda>c. \<not> is_ascii_digit c) s
      in if rest = [] then [span]
         else span # takeWhile is_ascii_digit rest
                # re_split_digits (dropWhile is_ascii_digit rest))"
  by pat_completeness auto
termination
proof (relation "measure length")
  show "wf (measure length)" by simp
next
  fix s span rest :: string
  assume rest: "rest = dropWhile (\<lambda>c. \<not> is_ascii_digit c) s" and ne: "rest \<noteq> []"
  from ne obtain c cs where cs: "rest = c # cs" by (cases rest) auto
  have "is_ascii_digit (hd rest)"
    using hd_dropWhile [of "\<lambda>c. \<not> is_ascii_digit c" s] ne by (simp add: rest)
  then have "length (dropWhile is_ascii_digit rest) < length rest"
    using length_dropWhile_le [of is_ascii_digit cs] by (simp add: cs)
  also have "length rest \<le> length s"
    by (simp add: rest length_dropWhile_le)
  finally show "(dropWhile is_ascii_digit rest, s) \<in> measure length" by simp
qed

declare re_split_digits.simps [simp del]

datatype seg = SegInt int | SegStr string

definition natural_sort_key :: "string \<Rightarrow> error + seg list" where
  "natural_sort_key s =
     try_map (\<lambda>span. if isdigit span
                      then (case py_int span of Inl e \<Rightarrow> Inl e | Inr i \<Rightarrow> Inr (SegInt i))
                      else Inr (SegStr (lower span)))
       (re_split_digits s)"

definition row_key :: "int list \<Rightarrow> pyval list \<Rightarrow> error + seg list list" where
  "row_key keys x =
     try_map (\<lambda>key. case getitem x key of
                       Inl e \<Rightarrow> Inl e
                     | Inr v \<Rightarrow> natural_sort_key (py_str v))
       keys"

text \<open>
  \<^verbatim>\<open><\<close> on lists, and on strings, which compare code point by code point: the first
  position where the operands differ decides, and a proper prefix is smaller. An
  integer and a string are unequal, and have no order.
\<close>

fun list_lt :: "('a \<Rightarrow> 'a \<Rightarrow> error + bool) \<Rightarrow> 'a list \<Rightarrow> 'a list \<Rightarrow> error + bool" where
  "list_lt lt [] [] = Inr False"
| "list_lt lt [] (y # ys) = Inr True"
| "list_lt lt (x # xs) [] = Inr False"
| "list_lt lt (x # xs) (y # ys) = (if x = y then list_lt lt xs ys else lt x y)"

definition char_lt :: "char \<Rightarrow> char \<Rightarrow> error + bool" where
  "char_lt x y = Inr ((of_char x :: nat) < of_char y)"

definition str_lt :: "string \<Rightarrow> string \<Rightarrow> error + bool" where
  "str_lt = list_lt char_lt"

fun seg_lt :: "seg \<Rightarrow> seg \<Rightarrow> error + bool" where
  "seg_lt (SegInt a) (SegInt b) = Inr (a < b)"
| "seg_lt (SegStr a) (SegStr b) = str_lt a b"
| "seg_lt (SegInt a) (SegStr b) = Inl (TypeError ''< not supported between int and str'')"
| "seg_lt (SegStr a) (SegInt b) = Inl (TypeError ''< not supported between str and int'')"

definition key_lt :: "seg list list \<Rightarrow> seg list list \<Rightarrow> error + bool" where
  "key_lt = list_lt (list_lt seg_lt)"

text \<open>
  \<^verbatim>\<open>list.sort(key=...)\<close> is the interpreter's. It computes the key of every element
  first, compares keys with \<^verbatim>\<open><\<close> only, is stable, and an exception from a key or
  from a comparison ends the sort. The model inserts each element, in list order, behind
  the elements of the sorted part that are not greater.
\<close>

fun insort_lt ::
  "('k \<Rightarrow> 'k \<Rightarrow> error + bool) \<Rightarrow> 'k \<times> 'r \<Rightarrow> ('k \<times> 'r) list \<Rightarrow> error + ('k \<times> 'r) list" where
  "insort_lt lt x [] = Inr [x]"
| "insort_lt lt x (y # ys) =
     (case lt (fst x) (fst y) of
        Inl e \<Rightarrow> Inl e
      | Inr True \<Rightarrow> Inr (x # y # ys)
      | Inr False \<Rightarrow> (case insort_lt lt x ys of Inl e \<Rightarrow> Inl e | Inr zs \<Rightarrow> Inr (y # zs)))"

fun sort_lt ::
  "('k \<Rightarrow> 'k \<Rightarrow> error + bool) \<Rightarrow> ('k \<times> 'r) list \<Rightarrow> ('k \<times> 'r) list \<Rightarrow> error + ('k \<times> 'r) list" where
  "sort_lt lt [] acc = Inr acc"
| "sort_lt lt (x # xs) acc =
     (case insort_lt lt x acc of Inl e \<Rightarrow> Inl e | Inr acc' \<Rightarrow> sort_lt lt xs acc')"

definition list_sort ::
  "('r \<Rightarrow> error + 'k) \<Rightarrow> ('k \<Rightarrow> 'k \<Rightarrow> error + bool) \<Rightarrow> 'r list \<Rightarrow> error + 'r list" where
  "list_sort key lt xs =
     (case try_map (\<lambda>x. case key x of Inl e \<Rightarrow> Inl e | Inr k \<Rightarrow> Inr (k, x)) xs of
        Inl e \<Rightarrow> Inl e
      | Inr keyed \<Rightarrow>
          (case sort_lt lt keyed [] of Inl e \<Rightarrow> Inl e | Inr result \<Rightarrow> Inr (map snd result)))"

definition natural_sort_multiple_columns ::
  "pyval list list \<Rightarrow> int list \<Rightarrow> error + pyval list list" where
  "natural_sort_multiple_columns d keys = list_sort (row_key keys) key_lt d"

text \<open>
  The order properties that make an insertion sort stable, for a comparison that can
  raise: irreflexive, asymmetric, total on unequal operands where it answers, and
  transitive.
\<close>

definition ordlike :: "('a \<Rightarrow> 'a \<Rightarrow> error + bool) \<Rightarrow> bool" where
  "ordlike lt \<longleftrightarrow>
     (\<forall>a. lt a a = Inr False)
   \<and> (\<forall>a b. lt a b = Inr True \<longrightarrow> lt b a = Inr False)
   \<and> (\<forall>a b. lt a b = Inr False \<longrightarrow> a \<noteq> b \<longrightarrow> lt b a = Inr True)
   \<and> (\<forall>a b c. lt a b = Inr True \<longrightarrow> lt c b = Inr False \<longrightarrow> lt a c = Inr True)"

definition keys_le :: "('k \<Rightarrow> 'k \<Rightarrow> error + bool) \<Rightarrow> 'k \<times> 'r \<Rightarrow> 'k \<times> 'r \<Rightarrow> bool" where
  "keys_le lt a b \<longleftrightarrow> lt (fst b) (fst a) = Inr False"

text \<open>
  The spec's words, for comparison: the key is the sequence of the string's alternating
  spans, a maximal digit run mapped to its integer value and every other span to its
  lowercase text. \<open>alternating\<close> says that a list of spans starts with a span
  without digits and goes on with pairs of a non-empty digit run and a span without
  digits, which is empty at most at the end: so no run can be extended on either side.
\<close>

fun runs_then_spans :: "string list \<Rightarrow> bool" where
  "runs_then_spans [] = True"
| "runs_then_spans [d] = False"
| "runs_then_spans [d, t] =
     (d \<noteq> [] \<and> list_all is_ascii_digit d \<and> list_all (\<lambda>c. \<not> is_ascii_digit c) t)"
| "runs_then_spans (d # t # rest) =
     (d \<noteq> [] \<and> list_all is_ascii_digit d
      \<and> t \<noteq> [] \<and> list_all (\<lambda>c. \<not> is_ascii_digit c) t \<and> runs_then_spans rest)"

fun alternating :: "string list \<Rightarrow> bool" where
  "alternating [] = False"
| "alternating (t # rest) = (list_all (\<lambda>c. \<not> is_ascii_digit c) t \<and> runs_then_spans rest)"

definition segment :: "string \<Rightarrow> seg" where
  "segment span =
     (if span \<noteq> [] \<and> list_all is_ascii_digit span
      then SegInt (foldl (\<lambda>v c. 10 * v + (of_char c - 48)) 0 span)
      else SegStr (lower span))"

section \<open>Formatting rules\<close>

text \<open>
  \<^verbatim>\<open>
  def format_cells(self, sheet_name, header, rule, bg_color):
      self.cell_styles.setdefault(sheet_name, {})
      self.cell_styles[sheet_name].setdefault(header, []).append(
          {'rule': rule, 'bg_color': bg_color})

  def freeze_column_after(self, sheet_name, column_name):
      self.frozen_columns[sheet_name] = column_name
  \<close>
\<close>

definition format_cells :: "wrapper \<Rightarrow> string \<Rightarrow> string \<Rightarrow> string \<Rightarrow> string \<Rightarrow> wrapper" where
  "format_cells w sheet_name header r bg =
     (let styles = setdefault (cell_styles w) sheet_name [];
          per_sheet = (case dict_get styles sheet_name of None \<Rightarrow> [] | Some m \<Rightarrow> m);
          per_header = (case dict_get per_sheet header of None \<Rightarrow> [] | Some l \<Rightarrow> l)
      in w\<lparr>cell_styles :=
             dict_set styles sheet_name
               (dict_set per_sheet header (per_header @ [\<lparr>rule = r, bg_color = bg\<rparr>]))\<rparr>)"

definition freeze_column_after :: "wrapper \<Rightarrow> string \<Rightarrow> string \<Rightarrow> wrapper" where
  "freeze_column_after w sheet_name column_name =
     w\<lparr>frozen_columns := dict_set (frozen_columns w) sheet_name column_name\<rparr>"

text \<open>
  \<^verbatim>\<open>
  def conditional_format(self, sheet_name, rules):
      if not (isinstance(rules, list)
              and all(isinstance(value, dict) for value in rules)):
          print('List of Dicts Reqd for Conditional Formatting - Ignoring!')
          return
      self.table_styles.setdefault(sheet_name, [])
      for rule in rules:
          formula = rule.get('formula')
          bg_color = rule.get('bg_color')
          if not (formula and bg_color):
              print('Skipping Formatting - Missing formula and/or bg_color!')
              continue
          self.table_styles[sheet_name].append(
              Rule(type="expression",
                   dxf=DifferentialStyle(fill=PatternFill(bgColor=bg_color.lstrip('#'))),
                   formula=formula, stopIfTrue=False))
  \<close>
  The engine's constructors are taken to keep their arguments; what the engine itself
  rejects is outside the model.
\<close>

fun is_dict :: "pyval \<Rightarrow> bool" where
  "is_dict (PDict _) = True"
| "is_dict _ = False"

text \<open>\<^verbatim>\<open>rule.get(key)\<close>\<close>

fun dict_get_item :: "pyval \<Rightarrow> string \<Rightarrow> error + pyval" where
  "dict_get_item (PDict kvs) key =
     Inr (case map_of kvs (PStr key) of None \<Rightarrow> PNone | Some v \<Rightarrow> v)"
| "dict_get_item _ key = Inl (AttributeError ''object has no attribute get'')"

text \<open>\<^verbatim>\<open>bg_color.lstrip('#')\<close>\<close>

fun lstrip_hash :: "pyval \<Rightarrow> error + string" where
  "lstrip_hash (PStr s) = Inr (dropWhile (\<lambda>c. c = CHR ''#'') s)"
| "lstrip_hash _ = Inl (AttributeError ''object has no attribute lstrip'')"

definition expression_rule :: "string \<Rightarrow> pyval \<Rightarrow> cf_rule" where
  "expression_rule bg f =
     \<lparr>rule_type = ''expression'', fill_bgColor = bg, formula = f, stopIfTrue = False\<rparr>"

definition append_table_style :: "wrapper \<Rightarrow> string \<Rightarrow> cf_rule \<Rightarrow> (error + unit) \<times> wrapper" where
  "append_table_style w sheet_name r =
     (case dict_get (table_styles w) sheet_name of
        None \<Rightarrow> (Inl (KeyError sheet_name), w)
      | Some l \<Rightarrow> (Inr (), w\<lparr>table_styles := dict_set (table_styles w) sheet_name (l @ [r])\<rparr>))"

fun add_rules :: "wrapper \<Rightarrow> string \<Rightarrow> pyval list \<Rightarrow> (error + unit) \<times> wrapper" where
  "add_rules w sheet_name [] = (Inr (), w)"
| "add_rules w sheet_name (r # rest) =
     (case dict_get_item r ''formula'' of
        Inl e \<Rightarrow> (Inl e, w)
      | Inr f \<Rightarrow>
         (case dict_get_item r ''bg_color'' of
            Inl e \<Rightarrow> (Inl e, w)
          | Inr bg \<Rightarrow>
              if \<not> (truthy f \<and> truthy bg)
              then add_rules
                     (w\<lparr>stdout := stdout w
                          @ [''Skipping Formatting - Missing formula and/or bg_color!'']\<rparr>)
                     sheet_name rest
              else (case lstrip_hash bg of
                      Inl e \<Rightarrow> (Inl e, w)
                    | Inr colour \<Rightarrow>
                       (case append_table_style w sheet_name (expression_rule colour f) of
                          (Inl e, w') \<Rightarrow> (Inl e, w')
                        | (Inr _, w') \<Rightarrow> add_rules w' sheet_name rest))))"

definition conditional_format :: "wrapper \<Rightarrow> string \<Rightarrow> pyval \<Rightarrow> (error + unit) \<times> wrapper" where
  "conditional_format w sheet_name rules =
     (case rules of
        PList rs \<Rightarrow>
          if list_all is_dict rs
          then add_rules (w\<lparr>table_styles := setdefault (table_styles w) sheet_name []\<rparr>)
                 sheet_name rs
          else (Inr (), w\<lparr>stdout := stdout w
                  @ [''List of Dicts Reqd for Conditional Formatting - Ignoring!'']\<rparr>)
      | _ \<Rightarrow> (Inr (), w\<lparr>stdout := stdout w
                  @ [''List of Dicts Reqd for Conditional Formatting - Ignoring!'']\<rparr>))"

text \<open>
  The spec's words, for comparison: a rule is skipped when it is missing a non-empty
  formula or a non-empty \<^verbatim>\<open>bg_color\<close>, and is well formed when it has both; a
  well-formed rule becomes a conditional format with the colour's leading \<open>#\<close>
  removed. Non-empty is what the guard \<^verbatim>\<open>formula and bg_color\<close> tests: the truth
  value. Whether the colour is a string is a separate matter, which the guard does not
  test.
\<close>

definition rule_field :: "pyval \<Rightarrow> string \<Rightarrow> pyval" where
  "rule_field r key = (case dict_get_item r key of Inl _ \<Rightarrow> PNone | Inr v \<Rightarrow> v)"

definition rule_incomplete :: "pyval \<Rightarrow> bool" where
  "rule_incomplete r \<longleftrightarrow>
     \<not> truthy (rule_field r ''formula'') \<or> \<not> truthy (rule_field r ''bg_color'')"

definition rule_well_formed :: "pyval \<Rightarrow> bool" where
  "rule_well_formed r \<longleftrightarrow>
     truthy (rule_field r ''formula'') \<and> truthy (rule_field r ''bg_color'')"

definition colour_is_string :: "pyval \<Rightarrow> bool" where
  "colour_is_string r = (case rule_field r ''bg_color'' of PStr _ \<Rightarrow> True | _ \<Rightarrow> False)"

definition rule_entry :: "pyval \<Rightarrow> cf_rule" where
  "rule_entry r =
     expression_rule
       (case rule_field r ''bg_color'' of PStr s \<Rightarrow> dropWhile (\<lambda>c. c = CHR ''#'') s | _ \<Rightarrow> [])
       (rule_field r ''formula'')"

definition recorded_rules :: "wrapper \<Rightarrow> string \<Rightarrow> cf_rule list" where
  "recorded_rules w sheet_name =
     (case dict_get (table_styles w) sheet_name of None \<Rightarrow> [] | Some l \<Rightarrow> l)"

section \<open>Export\<close>

text \<open>
  Modelled from the spec: the workbook is the rendering engine's, which is not part of
  the repository. The spec names what the wrapper uses of it: creating sheets, appending
  rows, reading a cell's value and column, defining a named table, registering
  conditional formats, setting the anchor of the frozen panes, saving. A sheet is the
  record of what the wrapper asked for: its title, the rows appended to it, the tables
  and conditional formats registered on it and the anchor of its frozen panes; a
  workbook is the list of its sheets, and the engine is taken to accept every request.
  Column widths (\<^verbatim>\<open>_autosize_columns\<close>) are floating-point numbers and are left
  out; with no date among the values that step changes nothing else.
\<close>

record xl_table =
  displayName :: string
  ref :: string
  style_name :: string
  showFirstColumn :: bool
  showLastColumn :: bool
  showRowStripes :: bool
  showColumnStripes :: bool

record worksheet =
  title :: string
  cells :: "pyval list list"
  tables :: "xl_table list"
  conditional_formatting :: "(string \<times> cf_rule) list"
  freeze_panes :: "string option"

definition new_sheet :: "string \<Rightarrow> worksheet" where
  "new_sheet name =
     \<lparr>title = name, cells = [], tables = [], conditional_formatting = [], freeze_panes = None\<rparr>"

definition max_row :: "worksheet \<Rightarrow> nat" where
  "max_row ws = max 1 (length (cells ws))"

definition max_column :: "worksheet \<Rightarrow> nat" where
  "max_column ws = max 1 (fold max (map length (cells ws)) 0)"

text \<open>
  Sequencing for code that can raise or, through \<open>col_to_excel\<close>, never return:
  \<open>None\<close> is a call that does not return, \<open>Some (Inl e)\<close> one that raises \<open>e\<close>.
\<close>

definition bind :: "(error + 'a) option \<Rightarrow> ('a \<Rightarrow> (error + 'b) option) \<Rightarrow> (error + 'b) option" where
  "bind m f = (case m of None \<Rightarrow> None | Some (Inl e) \<Rightarrow> Some (Inl e) | Some (Inr x) \<Rightarrow> f x)"

definition returning :: "'a option \<Rightarrow> (error + 'a) option" where
  "returning m = map_option Inr m"

text \<open>
  \<^verbatim>\<open>
  def _freeze_columns(self, current_sheet):
      sheet_name = current_sheet.title
      if sheet_name in self.frozen_columns:
          sheet_headers = next(current_sheet.rows)
          try:
              column_number = next(i.col_idx for i in sheet_headers
                                   if i.value == self.frozen_columns[sheet_name])
          except StopIteration as e:
              raise RuntimeError('Invalid Header') from e
          else:
              cell = f'{self._col_to_excel(column_number + 1)}1'
              current_sheet.freeze_panes = current_sheet[cell]
  \<close>
  The cell at list position \<open>i\<close> of a row has \<^verbatim>\<open>col_idx\<close> \<open>i + 1\<close>. The configured
  name is a string, so a cell matches exactly when its value is that string.
\<close>

definition freeze_columns :: "wrapper \<Rightarrow> worksheet \<Rightarrow> (error + worksheet) option" where
  "freeze_columns w current_sheet =
     (case dict_get (frozen_columns w) (title current_sheet) of
        None \<Rightarrow> Some (Inr current_sheet)
      | Some column_name \<Rightarrow>
         (case cells current_sheet of
            [] \<Rightarrow> Some (Inl (StopIteration []))
          | header_cells # _ \<Rightarrow>
             (case first_index (\<lambda>v. v = PStr column_name) header_cells of
                None \<Rightarrow> Some (Inl (RuntimeError ''Invalid Header''))
              | Some i \<Rightarrow>
                 (let column_number = int i + 1 in
                  bind (returning (col_to_excel (column_number + 1)))
                    (\<lambda>letters.
                       Some (Inr (current_sheet\<lparr>freeze_panes := Some (letters @ ''1'')\<rparr>)))))))"

text \<open>
  The spec's words, for comparison: the address of the cell in column \<open>col\<close> and
  row \<open>row\<close>, both counted from 1.
\<close>

definition coordinate :: "nat \<Rightarrow> nat \<Rightarrow> string option" where
  "coordinate col row = map_option (\<lambda>letters. letters @ dec_nat row) (col_to_excel (int col))"

text \<open>
  One sheet of \<^verbatim>\<open>export_excel\<close>, from \<^verbatim>\<open>create_sheet\<close> to \<^verbatim>\<open>_freeze_columns\<close>:
  \<^verbatim>\<open>
  current_sheet = excel_workbook.create_sheet(sheet_name)
  if sort_keys := sheet_data.get('sort_keys'):
      natural_sort_multiple_columns(self.output_data[sheet_name]['data'], sort_keys)
  for item in self._merge_data(sheet_name):
      current_sheet.append(item)
  max_column = self._col_to_excel(current_sheet.max_column)
  max_row = current_sheet.max_row
  current_sheet.add_table(Table(displayName=sheet_name.replace(' ', ''),
      ref=f'A1:{max_column}{max_row}', tableStyleInfo=TableStyleInfo(...)))
  for header, cell_rules in self.cell_styles.get(sheet_name, {}).items():
      for rule in cell_rules:
          header_idx = self.output_data.get(sheet_name).get('headers').index(header) + 1
          header_col = self._col_to_excel(header_idx)
          header_ref = f'{header_col}2:{header_col}{max_row}'
          current_sheet.conditional_formatting.add(header_ref, Rule(...))
  for style in self.table_styles.get(sheet_name, []):
      current_sheet.conditional_formatting.add(f'A2:{max_column}{max_row}', style)
  self._autosize_columns(current_sheet)
  self._freeze_columns(current_sheet)
  \<close>
\<close>

definition sort_sheet :: "wrapper \<Rightarrow> string \<Rightarrow> sheet \<Rightarrow> error + wrapper" where
  "sort_sheet w sheet_name sheet_data =
     (case sort_keys sheet_data of
        None \<Rightarrow> Inr w
      | Some keys \<Rightarrow>
          if keys = [] then Inr w
          else (case dict_get (output_data w) sheet_name of
                  None \<Rightarrow> Inl (KeyError sheet_name)
                | Some sh \<Rightarrow>
                   (case natural_sort_multiple_columns (data sh) keys of
                      Inl e \<Rightarrow> Inl e
                    | Inr sorted_rows \<Rightarrow>
                        Inr (w\<lparr>output_data :=
                                 dict_set (output_data w) sheet_name
                                   (sh\<lparr>data := sorted_rows\<rparr>)\<rparr>))))"

definition banded_table :: "wrapper \<Rightarrow> string \<Rightarrow> string \<Rightarrow> nat \<Rightarrow> xl_table" where
  "banded_table w sheet_name max_col rows =
     \<lparr>displayName = filter (\<lambda>c. c \<noteq> CHR '' '') sheet_name,
      ref = ''A1:'' @ max_col @ dec_nat rows,
      style_name = table_style w,
      showFirstColumn = False, showLastColumn = False,
      showRowStripes = True, showColumnStripes = False\<rparr>"

fun header_rules ::
  "pyval list \<Rightarrow> nat \<Rightarrow> string \<Rightarrow> cell_rule list \<Rightarrow> worksheet \<Rightarrow> (error + worksheet) option" where
  "header_rules hs rows header [] ws = Some (Inr ws)"
| "header_rules hs rows header (r # rest) ws =
     (case first_index (\<lambda>h. h = PStr header) hs of
        None \<Rightarrow> Some (Inl (ValueError ''is not in list''))
      | Some i \<Rightarrow>
          bind (returning (col_to_excel (int i + 1)))
            (\<lambda>header_col.
               header_rules hs rows header rest
                 (ws\<lparr>conditional_formatting := conditional_formatting ws
                       @ [(header_col @ ''2:'' @ header_col @ dec_nat rows,
                           expression_rule (dropWhile (\<lambda>c. c = CHR ''#'') (bg_color r))
                             (PList [PStr (rule r)]))]\<rparr>)))"

fun cell_style_rules ::
  "pyval list \<Rightarrow> nat \<Rightarrow> (string \<times> cell_rule list) list \<Rightarrow> worksheet \<Rightarrow> (error + worksheet) option" where
  "cell_style_rules hs rows [] ws = Some (Inr ws)"
| "cell_style_rules hs rows ((header, cell_rules) # rest) ws =
     bind (header_rules hs rows header cell_rules ws) (cell_style_rules hs rows rest)"

definition export_sheet ::
  "wrapper \<Rightarrow> string \<Rightarrow> sheet \<Rightarrow> (error + worksheet \<times> wrapper) option" where
  "export_sheet w sheet_name sheet_data =
     bind (Some (sort_sheet w sheet_name sheet_data)) (\<lambda>w1.
     bind (Some (merge_data w1 sheet_name)) (\<lambda>merged.
       let ws1 = (new_sheet sheet_name)\<lparr>cells := merged\<rparr>;
           rows = max_row ws1
       in
     bind (returning (col_to_excel (int (max_column ws1)))) (\<lambda>max_col.
       let ws2 = ws1\<lparr>tables := tables ws1 @ [banded_table w1 sheet_name max_col rows]\<rparr>
       in
     bind (cell_style_rules (sheet_headers w1 sheet_name) rows
             (case dict_get (cell_styles w1) sheet_name of None \<Rightarrow> [] | Some m \<Rightarrow> m) ws2) (\<lambda>ws3.
       let ws4 = ws3\<lparr>conditional_formatting := conditional_formatting ws3
                       @ map (\<lambda>style. (''A2:'' @ max_col @ dec_nat rows, style))
                           (recorded_rules w1 sheet_name)\<rparr>
       in
     bind (freeze_columns w1 ws4) (\<lambda>ws5. Some (Inr (ws5, w1)))))))"

text \<open>
  \<^verbatim>\<open>
  def export_excel(self):
      excel_workbook = Workbook()
      excel_workbook.remove(excel_workbook.active)
      for sheet_name, sheet_data in self.output_data.items():
          if not sheet_data.get('data'):
              print(f'{sheet_name}: No Data Found')
              continue
          ...
      try:
          excel_workbook.save(self.output_file)
      except IndexError:
          print('FATAL: No Sheets Containing Data - No Excel Doc Generated!')
          return
      finally:
          excel_workbook.close()
  \<close>
  The result is the saved document, if one was saved, and the wrapper after the call.
  The wrapper that an export leaves behind when it raises is not tracked.
\<close>

fun export_sheets ::
  "wrapper \<Rightarrow> (string \<times> sheet) list \<Rightarrow> worksheet list
     \<Rightarrow> (error + worksheet list \<times> wrapper) option" where
  "export_sheets w [] excel_workbook = Some (Inr (excel_workbook, w))"
| "export_sheets w ((sheet_name, sheet_data) # rest) excel_workbook =
     (if data sheet_data = []
      then export_sheets (w\<lparr>stdout := stdout w @ [sheet_name @ '': No Data Found'']\<rparr>)
             rest excel_workbook
      else bind (export_sheet w sheet_name sheet_data)
             (\<lambda>(current_sheet, w'). export_sheets w' rest (excel_workbook @ [current_sheet])))"

definition export_excel :: "wrapper \<Rightarrow> (error + worksheet list option \<times> wrapper) option" where
  "export_excel w =
     bind (export_sheets w (output_data w) [])
       (\<lambda>(excel_workbook, w').
          if excel_workbook = []
          then Some (Inr (None,
                 w'\<lparr>stdout := stdout w'
                      @ [''FATAL: No Sheets Containing Data - No Excel Doc Generated!'']\<rparr>))
          else Some (Inr (Some excel_workbook, w')))"

section \<open>An example store\<close>

text \<open>
  The spec's end-to-end example, built through the wrapper's own methods: a sheet
  \<open>Instances\<close> with two headers and two rows, a sheet \<open>Empty\<close> with a header and no
  row, and the panes of \<open>Instances\<close> to be frozen after \<open>Region\<close>.
\<close>

definition example_wrapper :: wrapper where
  "example_wrapper =
     (let w1 = snd (add_headers empty_wrapper ''Instances''
                      (PList [PStr ''Region'', PStr ''Instance ID'']));
          w2 = snd (add_headers w1 ''Empty'' (PList [PStr ''A'']));
          w3 = snd (add_data w2 ''Instances'' (PList [PStr ''us-east-1'', PStr ''i-2'']));
          w4 = snd (add_data w3 ''Instances'' (PList [PStr ''eu-west-1'', PStr ''i-10'']))
      in freeze_column_after w4 ''Instances'' ''Region'')"

definition example_sheet :: worksheet where
  "example_sheet =
     (new_sheet ''Instances'')
       \<lparr>cells := [[PStr ''Region'', PStr ''Instance ID''],
                  [PStr ''us-east-1'', PStr ''i-2''],
                  [PStr ''eu-west-1'', PStr ''i-10'']]\<rparr>"

section \<open>Properties of the column letters\<close>

lemma letters_value_snoc:
  "letters_value (s @ [c]) = 26 * letters_value s + letter_digit c"
  by (simp add: letters_value_def)

lemma letters_value_nonneg: "is_letters s \<Longrightarrow> 0 \<le> letters_value s"
proof (induction s rule: rev_induct)
  case Nil
  show ?case by (simp add: letters_value_def)
next
  case (snoc c s)
  then show ?case by (auto simp: letters_value_snoc is_letters_def)
qed

lemma letter_digit_chr:
  "0 \<le> m \<Longrightarrow> m < 26 \<Longrightarrow> letter_digit (char_of (m + 65)) = m + 1"
  by (simp add: letter_digit_def of_char_of)

text \<open>
  The loop leaves with the numeral of its counter in front of what it had accumulated:
  strong induction on the counter, which \<open>(d - 1) div 26\<close> makes smaller.
\<close>

lemma col_loop_spec:
  "0 \<le> d \<Longrightarrow>
     \<exists>s. col_loop d acc = Some (s @ acc) \<and> is_letters s \<and> letters_value s = d"
proof (induction "nat d" arbitrary: d acc rule: less_induct)
  case less
  show ?case
  proof (cases "d = 0")
    case True
    then have "col_loop d acc = Some acc"
      by (subst col_loop.simps) simp
    with True show ?thesis
      by (simp add: is_letters_def letters_value_def)
  next
    case False
    define q where "q = (d - 1) div 26"
    define m where "m = (d - 1) mod 26"
    have d: "0 < d" using False less.prems by simp
    have q: "0 \<le> q" "nat q < nat d" using d by (auto simp: q_def)
    have m: "0 \<le> m" "m < 26" by (auto simp: m_def)
    have dqm: "d = 26 * q + m + 1" by (simp add: q_def m_def)
    obtain s where s:
      "col_loop q (char_of (m + 65) # acc) = Some (s @ char_of (m + 65) # acc)"
      "is_letters s" "letters_value s = q"
      using less.hyps [OF q(2) q(1)] by blast
    have "col_loop d acc = Some ((s @ [char_of (m + 65)]) @ acc)"
      using False s(1) by (subst col_loop.simps) (simp add: q_def m_def)
    moreover have "is_letters (s @ [char_of (m + 65)])"
      using s(2) m by (simp add: is_letters_def letter_digit_chr)
    moreover have "letters_value (s @ [char_of (m + 65)]) = d"
      using s(3) m by (simp add: letters_value_snoc letter_digit_chr dqm)
    ultimately show ?thesis by blast
  qed
qed

text \<open>Conversely every numeral is what the loop produces for its value.\<close>

lemma col_loop_letters:
  "is_letters s \<Longrightarrow> col_loop (letters_value s) acc = Some (s @ acc)"
proof (induction s arbitrary: acc rule: rev_induct)
  case Nil
  have "col_loop 0 acc = Some acc"
    by (subst col_loop.simps) simp
  then show ?case by (simp add: letters_value_def)
next
  case (snoc c s)
  have s: "is_letters s" and c: "1 \<le> letter_digit c" "letter_digit c \<le> 26"
    using snoc.prems by (auto simp: is_letters_def)
  define v where "v = letters_value s"
  define k where "k = letter_digit c"
  have v: "0 \<le> v" using s by (simp add: v_def letters_value_nonneg)
  have val: "letters_value (s @ [c]) = 26 * v + k"
    by (simp add: letters_value_snoc v_def k_def)
  have k: "1 \<le> k" "k \<le> 26" using c by (auto simp: k_def)
  have nz: "26 * v + k \<noteq> 0" using v k by linarith
  have dv: "(26 * v + k - 1) div 26 = v" using v k by simp
  have md: "(26 * v + k - 1) mod 26 = k - 1" using v k by presburger
  have ch: "char_of (64 + k) = c"
  proof -
    have "64 + k = (of_char c :: int)" by (simp add: k_def letter_digit_def)
    then show ?thesis by (simp only: char_of_char)
  qed
  have "col_loop (26 * v + k) acc = col_loop v (c # acc)"
    using nz by (subst col_loop.simps) (simp add: dv md ch)
  also have "\<dots> = Some (s @ c # acc)"
    using snoc.IH [OF s] by (simp add: v_def)
  finally show ?case by (simp add: val)
qed

text \<open>
  A call that returns was given a column that is not negative: from a negative column
  the counter goes to \<open>-1\<close> and stays there, and the loop never exits.
\<close>

lemma col_loop_returns_nonneg:
  assumes "col_loop d acc = Some y"
  shows "0 \<le> d"
proof (rule col_loop.raw_induct [where P = "\<lambda>d acc y. 0 \<le> d", OF _ assms])
  fix approx :: "int \<Rightarrow> string \<Rightarrow> string option" and d excel_col y
  assume IH: "\<And>d e y. approx d e = Some y \<Longrightarrow> 0 \<le> d"
    and step: "(if d \<noteq> 0
                then approx ((d - 1) div 26) (char_of ((d - 1) mod 26 + 65) # excel_col)
                else Some excel_col) = Some y"
  show "0 \<le> d"
  proof (cases "d = 0")
    case True
    then show ?thesis by simp
  next
    case False
    with step IH have "0 \<le> (d - 1) div 26" by auto
    then show ?thesis by (simp add: pos_imp_zdiv_nonneg_iff)
  qed
qed

lemma col_to_excel_negative: "n < 0 \<Longrightarrow> col_to_excel n = None"
  using col_loop_returns_nonneg [of n "[]"]
  by (cases "col_to_excel n") (auto simp: col_to_excel_def)

text \<open>
  Claim C2. For every column index \<open>n \<ge> 1\<close> the conversion returns, and what it
  returns is the bijective base-26 numeral of \<open>n\<close>: a non-empty string over \<open>A\<close> to
  \<open>Z\<close> whose value is \<open>n\<close>; every such string is the result for its own value, so
  the numeral is the only one. In particular 1, 26, 27, 52, 702 and 703 give \<open>A\<close>,
  \<open>Z\<close>, \<open>AA\<close>, \<open>AZ\<close>, \<open>ZZ\<close> and \<open>AAA\<close>.
\<close>

theorem col_to_excel_bijective_base26:
  "(\<forall>n\<ge>1. \<exists>s. col_to_excel n = Some s \<and> s \<noteq> [] \<and> is_letters s \<and> letters_value s = n)
   \<and> (\<forall>s. is_letters s \<longrightarrow> col_to_excel (letters_value s) = Some s)
   \<and> col_to_excel 1 = Some ''A''
   \<and> col_to_excel 26 = Some ''Z''
   \<and> col_to_excel 27 = Some ''AA''
   \<and> col_to_excel 52 = Some ''AZ''
   \<and> col_to_excel 702 = Some ''ZZ''
   \<and> col_to_excel 703 = Some ''AAA''"
proof -
  have general: "\<exists>s. col_to_excel n = Some s \<and> s \<noteq> [] \<and> is_letters s \<and> letters_value s = n"
    if n: "1 \<le> n" for n
  proof -
    obtain s where s: "col_loop n [] = Some (s @ [])" "is_letters s" "letters_value s = n"
      using col_loop_spec [of n "[]"] n by auto
    have "s \<noteq> []"
    proof
      assume "s = []"
      then have "letters_value s = 0" by (simp add: letters_value_def)
      with s(3) n show False by simp
    qed
    with s show ?thesis by (auto simp: col_to_excel_def)
  qed
  have roundtrip: "col_to_excel (letters_value s) = Some s" if "is_letters s" for s
    using col_loop_letters [OF that, of "[]"] by (simp add: col_to_excel_def)
  have e1: "col_to_excel 1 = Some ''A''"
    by (simp add: col_to_excel_def col_loop.simps char_of_def)
  have e2: "col_to_excel 26 = Some ''Z''"
    by (simp add: col_to_excel_def col_loop.simps char_of_def)
  have e3: "col_to_excel 27 = Some ''AA''"
    by (simp add: col_to_excel_def col_loop.simps char_of_def)
  have e4: "col_to_excel 52 = Some ''AZ''"
    by (simp add: col_to_excel_def col_loop.simps char_of_def)
  have e5: "col_to_excel 702 = Some ''ZZ''"
    by (simp add: col_to_excel_def col_loop.simps char_of_def)
  have e6: "col_to_excel 703 = Some ''AAA''"
    by (simp add: col_to_excel_def col_loop.simps char_of_def)
  from general roundtrip e1 e2 e3 e4 e5 e6 show ?thesis by blast
qed

theorem col_to_excel_bijective_base26_witness:
  "(1::int) \<le> 28 \<and> col_to_excel 28 = Some ''AB'' \<and> is_letters ''AB''
   \<and> letters_value ''AB'' = 28 \<and> col_to_excel (letters_value ''AB'') = Some ''AB''"
proof -
  have l: "is_letters ''AB''"
    by (simp add: is_letters_def letter_digit_def)
  have v: "letters_value ''AB'' = 28"
    by (simp add: letters_value_def letter_digit_def)
  from col_to_excel_bijective_base26 l
  have "col_to_excel (letters_value ''AB'') = Some ''AB''"
    by blast
  with l v show ?thesis by simp
qed

section \<open>Properties of the table store\<close>

lemma dict_get_set: "dict_get (dict_set d k v) k' = (if k' = k then Some v else dict_get d k')"
  by (induction d) (auto simp: dict_get_def)

lemma dict_get_None: "dict_get d k = None \<longleftrightarrow> k \<notin> fst ` set d"
  by (simp add: dict_get_def map_of_eq_None_iff)

lemma dict_set_set: "dict_set (dict_set d k v) k v' = dict_set d k v'"
  by (induction d) auto

lemma dict_set_same: "dict_get d k = Some v \<Longrightarrow> dict_set d k v = d"
  by (induction d) (auto simp: dict_get_def split: if_splits)

lemma keys_dict_set:
  "map fst (dict_set d k v) = (if k \<in> fst ` set d then map fst d else map fst d @ [k])"
  by (induction d) (simp, force)

lemma create_sheet_get:
  "dict_get (output_data (create_sheet w n)) s =
     (case dict_get (output_data w) s of
        None \<Rightarrow> if s = n then Some \<lparr>headers = [], data = [], sort_keys = None\<rparr> else None
      | Some sh \<Rightarrow> Some sh)"
  by (auto simp: create_sheet_def dict_get_set dict_get_None [symmetric] split: option.splits)

lemma create_sheet_rows: "sheet_rows (create_sheet w n) s = sheet_rows w s"
  by (simp add: sheet_rows_def create_sheet_get split: option.splits)

lemma create_sheet_headers: "sheet_headers (create_sheet w n) s = sheet_headers w s"
  by (simp add: sheet_headers_def create_sheet_get split: option.splits)

lemma create_sheet_present: "\<exists>sh. dict_get (output_data (create_sheet w n)) n = Some sh"
  by (simp add: create_sheet_get split: option.splits)

text \<open>
  Claim C6. When the list made of the headers passed to \<open>add_headers\<close> has a repeated
  element (the elements being hashable, as strings are, and compared as they are, so
  case-sensitively), the call raises \<^verbatim>\<open>ValueError('Duplicate Header Found.')\<close>; all
  it has done by then is create the sheet if it was missing, so the header list of
  every sheet is what it was, and empty for a sheet that was not there.
\<close>

theorem add_headers_duplicate:
  assumes "py_iter d = Inr xs" and "list_all hashable xs" and "\<not> distinct xs"
  shows "add_headers w n d = (Inl (ValueError ''Duplicate Header Found.''), create_sheet w n)
         \<and> sheet_headers (snd (add_headers w n d)) s = sheet_headers w s"
proof -
  have "length xs \<noteq> length (remdups xs)"
    using assms(3) by (metis length_remdups_eq remdups_id_iff_distinct)
  then show ?thesis
    using assms(1,2) by (simp add: add_headers_def create_sheet_headers)
qed

theorem add_headers_duplicate_witness:
  "add_headers empty_wrapper ''S'' (PList [PStr ''A'', PStr ''B'', PStr ''A''])
     = (Inl (ValueError ''Duplicate Header Found.''), create_sheet empty_wrapper ''S'')
   \<and> sheet_headers
        (snd (add_headers empty_wrapper ''S'' (PList [PStr ''A'', PStr ''B'', PStr ''A''])))
        ''S'' = []"
proof -
  have a: "py_iter (PList [PStr ''A'', PStr ''B'', PStr ''A''])
             = Inr [PStr ''A'', PStr ''B'', PStr ''A'']"
    by simp
  have b: "list_all hashable [PStr ''A'', PStr ''B'', PStr ''A'']"
    by simp
  have c: "\<not> distinct [PStr ''A'', PStr ''B'', PStr ''A'']"
    by simp
  have e: "sheet_headers empty_wrapper ''S'' = []"
    by (simp add: sheet_headers_def empty_wrapper_def dict_get_def)
  from add_headers_duplicate [OF a b c, of empty_wrapper "''S''" "''S''", unfolded e]
  show ?thesis .
qed

text \<open>
  Claim C10. \<open>add_data\<close> reads \<^verbatim>\<open>data[0]\<close> unguarded. An empty list or tuple
  raises \<^verbatim>\<open>IndexError\<close>; a set, which the type check accepts, raises
  \<^verbatim>\<open>TypeError\<close>, whatever it holds. In each case the call has only created the sheet
  if it was missing: no sheet has a row more, and the error is not the
  column-count mismatch.
\<close>

theorem add_data_unguarded_index:
  "add_data w n (PList []) = (Inl (IndexError ''list index out of range''), create_sheet w n)
   \<and> add_data w n (PTuple []) = (Inl (IndexError ''tuple index out of range''), create_sheet w n)
   \<and> isinstance_seq (PSet xs)
   \<and> add_data w n (PSet xs)
       = (Inl (TypeError ''set object is not subscriptable''), create_sheet w n)
   \<and> sheet_rows (create_sheet w n) s = sheet_rows w s"
  by (simp add: add_data_def create_sheet_rows)

lemma py_len_iter:
  "py_len r = Inr n \<longleftrightarrow> (\<exists>items. py_iter r = Inr items \<and> length items = n)"
  by (cases r) auto

text \<open>
  The batch loop on a batch whose first rows fit and whose next row does not: induction
  on the rows that fit, the wrapper generalised because every appended row changes it.
\<close>

lemma add_batch_prefix:
  assumes "dict_get (output_data w) n = Some sh"
    and "list_all2 (\<lambda>r items. py_iter r = Inr items \<and> length items = length (headers sh))
           pre pre_items"
    and "py_len bad = Inr k" and "k \<noteq> length (headers sh)"
  shows "add_batch w n (pre @ bad # post) =
           (Inl (ValueError ''Invalid Data Found, Column Count Mismatch''),
            w\<lparr>output_data := dict_set (output_data w) n
                 (sh\<lparr>data := data sh @ map (map none_to_empty) pre_items\<rparr>)\<rparr>)"
  using assms
proof (induction pre arbitrary: w sh pre_items)
  case Nil
  then show ?case
    by (simp add: len_headers_def dict_set_same)
next
  case (Cons r pre)
  from Cons.prems(2) obtain items rest where
    pi: "pre_items = items # rest" and r: "py_iter r = Inr items"
    and len: "length items = length (headers sh)"
    and rest: "list_all2 (\<lambda>r items. py_iter r = Inr items \<and> length items = length (headers sh))
                 pre rest"
    by (auto simp: list_all2_Cons1)
  define sh' where "sh' = sh\<lparr>data := data sh @ [map none_to_empty items]\<rparr>"
  define w' where "w' = w\<lparr>output_data := dict_set (output_data w) n sh'\<rparr>"
  have step: "add_batch w n ((r # pre) @ bad # post) = add_batch w' n (pre @ bad # post)"
    using Cons.prems(1) r len py_len_iter [of r "length items"]
    by (simp add: len_headers_def append_row_def w'_def sh'_def)
  have get: "dict_get (output_data w') n = Some sh'"
    by (simp add: w'_def dict_get_set)
  have hs: "headers sh' = headers sh" by (simp add: sh'_def)
  have "add_batch w' n (pre @ bad # post) =
          (Inl (ValueError ''Invalid Data Found, Column Count Mismatch''),
           w'\<lparr>output_data := dict_set (output_data w') n
                 (sh'\<lparr>data := data sh' @ map (map none_to_empty) rest\<rparr>)\<rparr>)"
    using Cons.IH [OF get _ Cons.prems(3)] rest Cons.prems(4) by (simp add: hs)
  then show ?case
    unfolding step pi by (simp add: w'_def sh'_def dict_set_set)
qed

text \<open>
  Claim C3. In a batch call (a list or tuple whose first element is a list, tuple or
  set), let a row have a length other than the sheet's header count while every row
  before it has that count. Then the call raises
  \<^verbatim>\<open>ValueError('Invalid Data Found, Column Count Mismatch')\<close>, and the rows before the
  offending one stay appended to the sheet, each with \<^verbatim>\<open>None\<close> replaced by the empty
  string.
\<close>

theorem add_data_batch_partial:
  assumes "d = PList batch \<or> d = PTuple batch"
    and "batch = pre @ bad # post"
    and "isinstance_seq (hd batch)"
    and "list_all2 (\<lambda>r items. py_iter r = Inr items
                      \<and> length items = length (sheet_headers w n)) pre pre_items"
    and "py_len bad = Inr k"
    and "k \<noteq> length (sheet_headers w n)"
  shows "fst (add_data w n d) = Inl (ValueError ''Invalid Data Found, Column Count Mismatch'')
         \<and> sheet_rows (snd (add_data w n d)) n
             = sheet_rows w n @ map (map none_to_empty) pre_items"
proof -
  define w1 where "w1 = create_sheet w n"
  obtain sh where sh: "dict_get (output_data w1) n = Some sh"
    using create_sheet_present [of w n] by (auto simp: w1_def)
  have hs: "headers sh = sheet_headers w n"
    using sh create_sheet_headers [of w n n] by (simp add: sheet_headers_def w1_def)
  have rs: "data sh = sheet_rows w n"
    using sh create_sheet_rows [of w n n] by (simp add: sheet_rows_def w1_def)
  have "batch \<noteq> []"
    using assms(2) by simp
  then obtain x rest where batch: "batch = x # rest"
    by (cases batch) auto
  have x: "isinstance_seq x"
    using assms(3) by (simp add: batch)
  have call: "add_data w n d = add_batch w1 n batch"
    using assms(1) x by (auto simp: add_data_def w1_def batch Let_def)
  have "add_batch w1 n (pre @ bad # post) =
          (Inl (ValueError ''Invalid Data Found, Column Count Mismatch''),
           w1\<lparr>output_data := dict_set (output_data w1) n
                 (sh\<lparr>data := data sh @ map (map none_to_empty) pre_items\<rparr>)\<rparr>)"
    using add_batch_prefix [OF sh _ assms(5)] assms(4,6) by (simp add: hs)
  then show ?thesis
    by (simp add: call assms(2) sheet_rows_def dict_get_set rs)
qed

theorem add_data_batch_partial_witness:
  "fst (add_data (snd (add_headers empty_wrapper ''S'' (PList [PStr ''A'', PStr ''B''])))
          ''S'' (PList [PList [PStr ''a'', PNone], PTuple [PStr ''c'']]))
     = Inl (ValueError ''Invalid Data Found, Column Count Mismatch'')
   \<and> sheet_rows
        (snd (add_data (snd (add_headers empty_wrapper ''S'' (PList [PStr ''A'', PStr ''B''])))
               ''S'' (PList [PList [PStr ''a'', PNone], PTuple [PStr ''c'']])))
        ''S''
     = [[PStr ''a'', PStr []]]"
proof -
  define w where "w = snd (add_headers empty_wrapper ''S'' (PList [PStr ''A'', PStr ''B'']))"
  have hs: "sheet_headers w ''S'' = [PStr ''A'', PStr ''B'']"
    by (simp add: w_def add_headers_def create_sheet_def empty_wrapper_def sheet_headers_def
        dict_get_def)
  have rs: "sheet_rows w ''S'' = []"
    by (simp add: w_def add_headers_def create_sheet_def empty_wrapper_def sheet_rows_def
        dict_get_def)
  have "fst (add_data w ''S'' (PList [PList [PStr ''a'', PNone], PTuple [PStr ''c'']]))
          = Inl (ValueError ''Invalid Data Found, Column Count Mismatch'')
        \<and> sheet_rows
             (snd (add_data w ''S'' (PList [PList [PStr ''a'', PNone], PTuple [PStr ''c'']])))
             ''S''
          = sheet_rows w ''S'' @ map (map none_to_empty) [[PStr ''a'', PNone]]"
    by (rule add_data_batch_partial
          [where batch = "[PList [PStr ''a'', PNone], PTuple [PStr ''c'']]"
             and pre = "[PList [PStr ''a'', PNone]]" and bad = "PTuple [PStr ''c'']"
             and post = "[]" and k = 1])
       (simp_all add: hs)
  then have "fst (add_data w ''S'' (PList [PList [PStr ''a'', PNone], PTuple [PStr ''c'']]))
          = Inl (ValueError ''Invalid Data Found, Column Count Mismatch'')
        \<and> sheet_rows
             (snd (add_data w ''S'' (PList [PList [PStr ''a'', PNone], PTuple [PStr ''c'']])))
             ''S''
          = [[PStr ''a'', PStr []]]"
    by (simp add: rs none_to_empty_def)
  then show ?thesis
    unfolding w_def .
qed

lemma check_rows_eq:
  "check_rows hc rs acc =
     (if \<forall>r\<in>set rs. length r = hc then Inr (acc @ rs)
      else Inl (SystemExit ''Invalid Data Found, Column Count Mismatch''))"
  by (induction rs arbitrary: acc) auto

text \<open>
  Claim C5. For a sheet of the store, the merge raises
  \<^verbatim>\<open>SystemExit('No Headers Found: ...')\<close> when the sheet has no header; otherwise it
  raises \<^verbatim>\<open>SystemExit('Invalid Data Found, Column Count Mismatch')\<close> when some stored
  row is not as long as the header list; otherwise it returns the header row followed by
  the stored rows in their order.
\<close>

theorem merge_data_result:
  assumes "dict_get (output_data w) n = Some sh"
  shows "merge_data w n =
           (if headers sh = [] then Inl (SystemExit (''No Headers Found: '' @ n))
            else if \<exists>r\<in>set (data sh). length r \<noteq> length (headers sh)
            then Inl (SystemExit ''Invalid Data Found, Column Count Mismatch'')
            else Inr (headers sh # data sh))"
  using assms by (auto simp: merge_data_def check_rows_eq)

theorem merge_data_result_witness:
  "merge_data
     \<lparr>output_data =
        [(''S'', \<lparr>headers = [PStr ''A'', PStr ''B''],
                 data = [[PStr ''a'', PStr ''b''], [PStr ''c'', PStr ''d'']],
                 sort_keys = None\<rparr>)],
      table_styles = [], cell_styles = [], frozen_columns = [],
      table_style = ''TableStyleMedium9'', stdout = []\<rparr> ''S''
   = Inr [[PStr ''A'', PStr ''B''], [PStr ''a'', PStr ''b''], [PStr ''c'', PStr ''d'']]"
proof -
  define sh where "sh = \<lparr>headers = [PStr ''A'', PStr ''B''],
                 data = [[PStr ''a'', PStr ''b''], [PStr ''c'', PStr ''d'']],
                 sort_keys = None\<rparr>"
  define w where "w = \<lparr>output_data = [(''S'', sh)],
      table_styles = [], cell_styles = [], frozen_columns = [],
      table_style = ''TableStyleMedium9'', stdout = []\<rparr>"
  have g: "dict_get (output_data w) ''S'' = Some sh"
    by (simp add: w_def dict_get_def)
  have "merge_data w ''S''
          = Inr [[PStr ''A'', PStr ''B''], [PStr ''a'', PStr ''b''], [PStr ''c'', PStr ''d'']]"
    using merge_data_result [OF g] by (simp add: sh_def)
  then show ?thesis
    unfolding w_def sh_def .
qed

section \<open>Properties of the natural sort\<close>

subsection \<open>The comparison of keys is an order where it answers\<close>

lemma ordlikeD:
  assumes "ordlike lt"
  shows "lt a a = Inr False"
    and "lt a b = Inr True \<Longrightarrow> lt b a = Inr False"
    and "lt a b = Inr False \<Longrightarrow> a \<noteq> b \<Longrightarrow> lt b a = Inr True"
    and "lt a b = Inr True \<Longrightarrow> lt c b = Inr False \<Longrightarrow> lt a c = Inr True"
  using assms unfolding ordlike_def by blast+

lemma list_lt_irrefl: "ordlike lt \<Longrightarrow> list_lt lt a a = Inr False"
  by (induction a) auto

lemma list_lt_asym:
  "ordlike lt \<Longrightarrow> list_lt lt a b = Inr True \<Longrightarrow> list_lt lt b a = Inr False"
  by (induction lt a b rule: list_lt.induct) (auto dest: ordlikeD(2) split: if_splits)

lemma list_lt_connex:
  "ordlike lt \<Longrightarrow> list_lt lt a b = Inr False \<Longrightarrow> a \<noteq> b \<Longrightarrow> list_lt lt b a = Inr True"
  by (induction lt a b rule: list_lt.induct) (auto dest: ordlikeD(3) split: if_splits)

lemma list_lt_trans:
  "ordlike lt \<Longrightarrow> list_lt lt a b = Inr True \<Longrightarrow> list_lt lt c b = Inr False
     \<Longrightarrow> list_lt lt a c = Inr True"
proof (induction a arbitrary: b c)
  case Nil
  then show ?case by (cases b; cases c) auto
next
  case (Cons x xs)
  note ord = Cons.prems(1)
  show ?case
  proof (cases b)
    case Nil
    with Cons.prems show ?thesis by simp
  next
    case b: (Cons y ys)
    show ?thesis
    proof (cases c)
      case Nil
      with Cons.prems b show ?thesis by simp
    next
      case c: (Cons z zs)
      show ?thesis
      proof (cases "x = y")
        case xy: True
        show ?thesis
        proof (cases "z = y")
          case True
          with Cons.prems xy b c Cons.IH [OF ord, of ys zs] show ?thesis by simp
        next
          case False
          with Cons.prems xy b c have "lt z y = Inr False" by simp
          with False have "lt y z = Inr True" using ordlikeD(3) [OF ord] by blast
          with False xy b c show ?thesis by auto
        qed
      next
        case xy: False
        with Cons.prems b have xlt: "lt x y = Inr True" by simp
        show ?thesis
        proof (cases "z = y")
          case True
          with xy xlt c show ?thesis by simp
        next
          case False
          with Cons.prems b c have "lt z y = Inr False" by simp
          with xlt have xz: "lt x z = Inr True" using ordlikeD(4) [OF ord] by blast
          have "x \<noteq> z" using xz ordlikeD(1) [OF ord, of z] by auto
          with xz c show ?thesis by simp
        qed
      qed
    qed
  qed
qed

lemma ordlike_list_lt: "ordlike lt \<Longrightarrow> ordlike (list_lt lt)"
  unfolding ordlike_def [of "list_lt lt"]
  using list_lt_irrefl list_lt_asym list_lt_connex list_lt_trans by blast

lemma ordlike_char_lt: "ordlike char_lt"
proof -
  have "(of_char a :: nat) < of_char b \<or> (of_char b :: nat) < of_char a" if "a \<noteq> b" for a b :: char
    using that of_char_eq_iff [of a b, where ?'a = nat] by linarith
  then show ?thesis
    by (auto simp: ordlike_def char_lt_def)
qed

lemma ordlike_seg_lt: "ordlike seg_lt"
proof -
  note s = ordlike_list_lt [OF ordlike_char_lt, folded str_lt_def]
  have 1: "seg_lt a a = Inr False" for a
    by (cases a) (auto simp: ordlikeD(1) [OF s])
  have 2: "seg_lt a b = Inr True \<Longrightarrow> seg_lt b a = Inr False" for a b
    by (cases a; cases b) (auto dest: ordlikeD(2) [OF s])
  have 3: "seg_lt a b = Inr False \<Longrightarrow> a \<noteq> b \<Longrightarrow> seg_lt b a = Inr True" for a b
    by (cases a; cases b) (auto dest: ordlikeD(3) [OF s])
  have 4: "seg_lt a b = Inr True \<Longrightarrow> seg_lt c b = Inr False \<Longrightarrow> seg_lt a c = Inr True" for a b c
    by (cases a; cases b; cases c) (auto dest: ordlikeD(4) [OF s])
  show ?thesis
    unfolding ordlike_def using 1 2 3 4 by blast
qed

lemma ordlike_key_lt: "ordlike key_lt"
  unfolding key_lt_def by (intro ordlike_list_lt ordlike_seg_lt)

subsection \<open>The insertion sort is stable\<close>

text \<open>
  An element goes in front of the first element that is greater. Everything behind
  that one is greater too, by transitivity, so no element with the key of the new one
  is overtaken.
\<close>

lemma insort_lt_props:
  assumes "ordlike lt"
    and "sorted_wrt (keys_le lt) ys"
    and "insort_lt lt x ys = Inr zs"
  shows "sorted_wrt (keys_le lt) zs"
    and "filter (\<lambda>p. fst p = k) zs = filter (\<lambda>p. fst p = k) ys @ (if fst x = k then [x] else [])"
    and "mset zs = add_mset x (mset ys)"
  using assms(2,3)
proof (induction ys arbitrary: zs)
  case Nil
  {
    case 1 then show ?case by auto
  next
    case 2 then show ?case by auto
  next
    case 3 then show ?case by auto
  }
next
  case (Cons y ys)
  note ord = assms(1)
  {
    case 1
    show ?case
    proof (cases "lt (fst x) (fst y)")
      case (Inl e)
      with 1 show ?thesis by simp
    next
      case (Inr b)
      show ?thesis
      proof (cases b)
        case True
        have xy: "lt (fst x) (fst y) = Inr True" using Inr True by simp
        have zs: "zs = x # y # ys" using 1(2) xy by simp
        have "keys_le lt x p" if "p \<in> set (y # ys)" for p
        proof -
          have "lt (fst p) (fst y) = Inr False"
            using that 1(1) ordlikeD(1) [OF ord] by (auto simp: keys_le_def)
          then have "lt (fst x) (fst p) = Inr True"
            using ordlikeD(4) [OF ord xy] by blast
          then show ?thesis
            using ordlikeD(2) [OF ord] by (simp add: keys_le_def)
        qed
        then show ?thesis using 1(1) zs by auto
      next
        case False
        have xy: "lt (fst x) (fst y) = Inr False" using Inr False by simp
        obtain zs' where zs': "insort_lt lt x ys = Inr zs'" and zs: "zs = y # zs'"
          using 1(2) xy by (auto split: sum.splits)
        have s: "sorted_wrt (keys_le lt) ys" using 1(1) by simp
        have sz: "sorted_wrt (keys_le lt) zs'" using Cons.IH(1) [OF s zs'] .
        have "set zs' = insert x (set ys)"
          using Cons.IH(3) [OF s zs'] by (metis set_mset_add_mset_insert set_mset_mset)
        moreover have "\<forall>p\<in>set ys. keys_le lt y p" using 1(1) by simp
        moreover have "keys_le lt y x" using xy by (simp add: keys_le_def)
        ultimately have "\<forall>p\<in>set zs'. keys_le lt y p" by simp
        with sz show ?thesis by (simp add: zs)
      qed
    qed
  next
    case 2
    show ?case
    proof (cases "lt (fst x) (fst y)")
      case (Inl e)
      with 2 show ?thesis by simp
    next
      case (Inr b)
      show ?thesis
      proof (cases b)
        case True
        have xy: "lt (fst x) (fst y) = Inr True" using Inr True by simp
        have zs: "zs = x # y # ys" using 2(2) xy by simp
        have "fst p \<noteq> fst x" if "p \<in> set (y # ys)" for p
        proof -
          have "lt (fst p) (fst y) = Inr False"
            using that 2(1) ordlikeD(1) [OF ord] by (auto simp: keys_le_def)
          then have "lt (fst x) (fst p) = Inr True"
            using ordlikeD(4) [OF ord xy] by blast
          then show ?thesis
            using ordlikeD(1) [OF ord, of "fst x"] by auto
        qed
        then have "filter (\<lambda>p. fst p = fst x) (y # ys) = []"
          by (simp add: filter_empty_conv)
        then show ?thesis using zs by auto
      next
        case False
        have xy: "lt (fst x) (fst y) = Inr False" using Inr False by simp
        obtain zs' where zs': "insort_lt lt x ys = Inr zs'" and zs: "zs = y # zs'"
          using 2(2) xy by (auto split: sum.splits)
        have s: "sorted_wrt (keys_le lt) ys" using 2(1) by simp
        show ?thesis
          using Cons.IH(2) [OF s zs'] zs by simp
      qed
    qed
  next
    case 3
    show ?case
    proof (cases "lt (fst x) (fst y)")
      case (Inl e)
      with 3 show ?thesis by simp
    next
      case (Inr b)
      have s: "sorted_wrt (keys_le lt) ys" using 3(1) by simp
      show ?thesis
        using 3(2) Inr Cons.IH(3) [OF s] by (cases b) (auto split: sum.splits)
    qed
  }
qed

lemma sort_lt_props:
  assumes "ordlike lt"
    and "sorted_wrt (keys_le lt) acc"
    and "sort_lt lt xs acc = Inr zs"
  shows "sorted_wrt (keys_le lt) zs
       \<and> filter (\<lambda>p. fst p = k) zs = filter (\<lambda>p. fst p = k) acc @ filter (\<lambda>p. fst p = k) xs
       \<and> mset zs = mset acc + mset xs"
  using assms(2,3)
proof (induction xs arbitrary: acc)
  case Nil
  then show ?case by simp
next
  case (Cons x xs)
  obtain acc' where acc': "insort_lt lt x acc = Inr acc'" and rest: "sort_lt lt xs acc' = Inr zs"
    using Cons.prems(2) by (auto split: sum.splits)
  note p = insort_lt_props [OF assms(1) Cons.prems(1) acc']
  show ?case
    using Cons.IH [OF p(1) rest] p(2) [of k] p(3) by auto
qed

lemma try_map_Inr:
  "try_map f xs = Inr ys \<Longrightarrow> list_all2 (\<lambda>x y. f x = Inr y) xs ys"
  by (induction xs arbitrary: ys) (auto split: sum.splits)

lemma list_sort_props:
  assumes "ordlike lt" and "list_sort key lt xs = Inr ys"
  shows "filter (\<lambda>r. key r = Inr k) ys = filter (\<lambda>r. key r = Inr k) xs"
    and "mset ys = mset xs"
    and "sorted_wrt (\<lambda>a b. \<exists>ka kb. key a = Inr ka \<and> key b = Inr kb \<and> lt kb ka = Inr False) ys"
proof -
  obtain keyed zs where keyed:
      "try_map (\<lambda>x. case key x of Inl e \<Rightarrow> Inl e | Inr k \<Rightarrow> Inr (k, x)) xs = Inr keyed"
    and zs: "sort_lt lt keyed [] = Inr zs" and ys: "ys = map snd zs"
    using assms(2) by (auto simp: list_sort_def split: sum.splits)
  have all2: "list_all2 (\<lambda>x p. key x = Inr (fst p) \<and> snd p = x) xs keyed"
    using try_map_Inr [OF keyed] by (rule list_all2_mono) (auto split: sum.splits)
  have xs: "xs = map snd keyed"
    using all2 by (induction rule: list_all2_induct) auto
  have kk: "key (snd p) = Inr (fst p)" if "p \<in> set keyed" for p
    using all2 that by (induction rule: list_all2_induct) auto
  note p = sort_lt_props [OF assms(1) _ zs, of k, simplified]
  have set_zs: "set zs = set keyed"
    using p by (metis set_mset_mset)
  have flt: "filter (\<lambda>r. key r = Inr k) (map snd l) = map snd (filter (\<lambda>p. fst p = k) l)"
    if "set l \<subseteq> set keyed" for l
    using that kk by (induction l) auto
  show "filter (\<lambda>r. key r = Inr k) ys = filter (\<lambda>r. key r = Inr k) xs"
    using p by (simp add: ys xs flt set_zs)
  show "mset ys = mset xs"
    using p by (simp add: ys xs)
  have "sorted_wrt (keys_le lt) zs" using p by simp
  then have "sorted_wrt (\<lambda>a b. \<exists>ka kb. key (snd a) = Inr ka \<and> key (snd b) = Inr kb \<and> lt kb ka = Inr False) zs"
    by (rule sorted_wrt_mono_rel [rotated]) (auto simp: keys_le_def kk set_zs)
  then show "sorted_wrt (\<lambda>a b. \<exists>ka kb. key a = Inr ka \<and> key b = Inr kb \<and> lt kb ka = Inr False) ys"
    by (simp add: ys sorted_wrt_map)
qed

text \<open>The sort returns whenever every key is computed and every two keys compare.\<close>

lemma insort_lt_total:
  assumes "\<forall>y\<in>set ys. \<exists>b. lt (fst x) (fst y) = Inr b"
  shows "\<exists>zs. insort_lt lt x ys = Inr zs \<and> set zs = insert x (set ys)"
  using assms
proof (induction ys)
  case Nil
  then show ?case by simp
next
  case (Cons y ys)
  then obtain b where b: "lt (fst x) (fst y) = Inr b" by auto
  from Cons obtain zs where "insort_lt lt x ys = Inr zs" "set zs = insert x (set ys)" by auto
  with b show ?case by (cases b) auto
qed

lemma sort_lt_total:
  assumes "\<forall>x\<in>set xs \<union> set acc. \<forall>y\<in>set xs \<union> set acc. \<exists>b. lt (fst x) (fst y) = Inr b"
  shows "\<exists>zs. sort_lt lt xs acc = Inr zs"
  using assms
proof (induction xs arbitrary: acc)
  case Nil
  then show ?case by simp
next
  case (Cons x xs)
  have "\<forall>y\<in>set acc. \<exists>b. lt (fst x) (fst y) = Inr b"
    using Cons.prems by simp
  from insort_lt_total [where lt = lt and x = x and ys = acc, OF this] obtain acc' where
    acc': "insort_lt lt x acc = Inr acc'" "set acc' = insert x (set acc)" by blast
  have "\<forall>a\<in>set xs \<union> set acc'. \<forall>y\<in>set xs \<union> set acc'. \<exists>b. lt (fst a) (fst y) = Inr b"
    using Cons.prems acc'(2) by auto
  from Cons.IH [OF this] acc'(1) show ?case by simp
qed

lemma try_map_returns:
  "\<forall>x\<in>set xs. \<exists>y. f x = Inr y \<Longrightarrow>
     \<exists>ys. try_map f xs = Inr ys \<and> list_all2 (\<lambda>x y. f x = Inr y) xs ys"
  by (induction xs) auto

lemma natural_sort_returns:
  assumes "\<forall>r\<in>set d. \<exists>k. row_key keys r = Inr k"
    and "\<forall>r\<in>set d. \<forall>r'\<in>set d. \<forall>k k'. row_key keys r = Inr k \<longrightarrow> row_key keys r' = Inr k'
           \<longrightarrow> (\<exists>b. key_lt k k' = Inr b)"
  shows "\<exists>d'. natural_sort_multiple_columns d keys = Inr d'"
proof -
  let ?f = "\<lambda>x. case row_key keys x of Inl e \<Rightarrow> Inl e | Inr k \<Rightarrow> Inr (k, x)"
  have "\<forall>x\<in>set d. \<exists>y. ?f x = Inr y"
    using assms(1) by (auto split: sum.splits)
  from try_map_returns [OF this] obtain keyed where
    keyed: "try_map ?f d = Inr keyed" and all2: "list_all2 (\<lambda>x y. ?f x = Inr y) d keyed"
    by blast
  have mem: "snd p \<in> set d \<and> row_key keys (snd p) = Inr (fst p)" if "p \<in> set keyed" for p
    using all2 that by (induction rule: list_all2_induct) (auto split: sum.splits)
  have "\<forall>x\<in>set keyed \<union> set []. \<forall>y\<in>set keyed \<union> set []. \<exists>b. key_lt (fst x) (fst y) = Inr b"
    using mem assms(2) by simp blast
  from sort_lt_total [where lt = key_lt and xs = keyed and acc = "[]", OF this] obtain zs where "sort_lt key_lt keyed [] = Inr zs" by blast
  with keyed show ?thesis
    by (simp add: natural_sort_multiple_columns_def list_sort_def)
qed

text \<open>
  Conversely a sort that returns has compared, directly or through transitivity, every
  two keys: whether the sort returns does not depend on the order in which it compares.
  Its result is sorted.
\<close>

lemma natural_sort_sorted:
  assumes "natural_sort_multiple_columns d keys = Inr d'"
  shows "sorted_wrt (\<lambda>a b. \<exists>ka kb. row_key keys a = Inr ka \<and> row_key keys b = Inr kb
                          \<and> key_lt kb ka = Inr False) d'"
  using list_sort_props(3) [OF ordlike_key_lt assms [unfolded natural_sort_multiple_columns_def]] .

lemma natural_sort_returns_iff:
  "(\<exists>d'. natural_sort_multiple_columns d keys = Inr d') \<longleftrightarrow>
     (\<forall>r\<in>set d. \<exists>k. row_key keys r = Inr k)
     \<and> (\<forall>r\<in>set d. \<forall>r'\<in>set d. \<forall>k k'. row_key keys r = Inr k \<longrightarrow> row_key keys r' = Inr k'
            \<longrightarrow> (\<exists>b. key_lt k k' = Inr b))"
proof
  assume "\<exists>d'. natural_sort_multiple_columns d keys = Inr d'"
  then obtain d' where run: "natural_sort_multiple_columns d keys = Inr d'" ..
  let ?le = "\<lambda>a b. \<exists>ka kb. row_key keys a = Inr ka \<and> row_key keys b = Inr kb
                      \<and> key_lt kb ka = Inr False"
  have sorted: "sorted_wrt ?le d'" by (rule natural_sort_sorted [OF run])
  have "mset d' = mset d"
    using list_sort_props(2) [OF ordlike_key_lt run [unfolded natural_sort_multiple_columns_def]] .
  then have sets: "set d' = set d" by (metis set_mset_mset)
  have keyed: "\<exists>k. row_key keys r = Inr k" if r: "r \<in> set d" for r
  proof -
    obtain keyed where
      "try_map (\<lambda>x. case row_key keys x of Inl e \<Rightarrow> Inl e | Inr k \<Rightarrow> Inr (k, x)) d = Inr keyed"
      using run by (auto simp: natural_sort_multiple_columns_def list_sort_def split: sum.splits)
    from try_map_Inr [OF this] r show ?thesis
      by (induction rule: list_all2_induct) (auto split: sum.splits)
  qed
  have cmp: "\<exists>b. key_lt k k' = Inr b"
    if mem: "r \<in> set d" "r' \<in> set d" and ks: "row_key keys r = Inr k" "row_key keys r' = Inr k'"
    for r r' k k'
  proof (cases "k = k'")
    case True
    then show ?thesis using ordlikeD(1) [OF ordlike_key_lt] by blast
  next
    case False
    then have "r \<noteq> r'" using ks by auto
    obtain i j where ij: "i < length d'" "j < length d'" "d' ! i = r" "d' ! j = r'"
      using mem sets by (metis in_set_conv_nth)
    with \<open>r \<noteq> r'\<close> have "i < j \<or> j < i" by (cases i j rule: linorder_cases) auto
    then have "key_lt k' k = Inr False \<or> key_lt k k' = Inr False"
    proof
      assume "i < j"
      from sorted_wrt_nth_less [OF sorted this ij(2)] ks ij(3,4)
      show ?thesis by auto
    next
      assume "j < i"
      from sorted_wrt_nth_less [OF sorted this ij(1)] ks ij(3,4)
      show ?thesis by auto
    qed
    then show ?thesis
      using ordlikeD(3) [OF ordlike_key_lt] False by metis
  qed
  from keyed cmp show "(\<forall>r\<in>set d. \<exists>k. row_key keys r = Inr k)
     \<and> (\<forall>r\<in>set d. \<forall>r'\<in>set d. \<forall>k k'. row_key keys r = Inr k \<longrightarrow> row_key keys r' = Inr k'
            \<longrightarrow> (\<exists>b. key_lt k k' = Inr b))"
    by blast
next
  assume "(\<forall>r\<in>set d. \<exists>k. row_key keys r = Inr k)
     \<and> (\<forall>r\<in>set d. \<forall>r'\<in>set d. \<forall>k k'. row_key keys r = Inr k \<longrightarrow> row_key keys r' = Inr k'
            \<longrightarrow> (\<exists>b. key_lt k k' = Inr b))"
  then show "\<exists>d'. natural_sort_multiple_columns d keys = Inr d'"
    using natural_sort_returns by blast
qed

text \<open>
  Claim C9. A sort that returns gives back the rows it was given, and, for every
  composite key, the rows with that key in the order in which they were: rows whose
  composite keys are equal keep their relative order.
\<close>

theorem natural_sort_stable:
  assumes "natural_sort_multiple_columns d keys = Inr d'"
  shows "mset d' = mset d
       \<and> filter (\<lambda>r. row_key keys r = Inr k) d' = filter (\<lambda>r. row_key keys r = Inr k) d"
  using list_sort_props(1,2) [OF ordlike_key_lt assms [unfolded natural_sort_multiple_columns_def]]
  by simp

theorem natural_sort_stable_witness:
  "natural_sort_multiple_columns
     [[PStr ''b'', PInt 1], [PStr ''a'', PInt 2], [PStr ''B'', PInt 3], [PStr ''A'', PInt 4]] [0]
     = Inr [[PStr ''a'', PInt 2], [PStr ''A'', PInt 4], [PStr ''b'', PInt 1], [PStr ''B'', PInt 3]]
   \<and> filter (\<lambda>r. row_key [0] r = Inr [[SegStr ''a'']])
        [[PStr ''a'', PInt 2], [PStr ''A'', PInt 4], [PStr ''b'', PInt 1], [PStr ''B'', PInt 3]]
     = [[PStr ''a'', PInt 2], [PStr ''A'', PInt 4]]"
proof -
  have run: "natural_sort_multiple_columns
      [[PStr ''b'', PInt 1], [PStr ''a'', PInt 2], [PStr ''B'', PInt 3], [PStr ''A'', PInt 4]] [0]
    = Inr [[PStr ''a'', PInt 2], [PStr ''A'', PInt 4], [PStr ''b'', PInt 1], [PStr ''B'', PInt 3]]"
    by code_simp
  have before: "filter (\<lambda>r. row_key [0] r = Inr [[SegStr ''a'']])
      [[PStr ''b'', PInt 1], [PStr ''a'', PInt 2], [PStr ''B'', PInt 3], [PStr ''A'', PInt 4]]
    = [[PStr ''a'', PInt 2], [PStr ''A'', PInt 4]]"
    by code_simp
  from natural_sort_stable [OF run, of "[[SegStr ''a'']]"] before run
  show ?thesis by simp
qed

subsection \<open>The key of a string\<close>

lemma re_split_concat: "concat (re_split_digits s) = s"
proof (induction s rule: re_split_digits.induct)
  case (1 s)
  show ?case
  proof (cases "dropWhile (\<lambda>c. \<not> is_ascii_digit c) s = []")
    case True
    then show ?thesis
      by (subst re_split_digits.simps) (simp add: Let_def takeWhile_eq_all_conv dropWhile_eq_Nil_conv)
  next
    case False
    then show ?thesis
      using "1.IH" [OF refl refl False]
      by (subst re_split_digits.simps) (simp add: Let_def)
  qed
qed

lemma re_split_hd:
  "\<exists>tl. re_split_digits r = takeWhile (\<lambda>c. \<not> is_ascii_digit c) r # tl"
  by (subst re_split_digits.simps) (simp add: Let_def)

lemma re_split_alternating: "alternating (re_split_digits s)"
proof (induction s rule: re_split_digits.induct)
  case (1 s)
  define rest where "rest = dropWhile (\<lambda>c. \<not> is_ascii_digit c) s"
  have t: "list_all (\<lambda>c. \<not> is_ascii_digit c) (takeWhile (\<lambda>c. \<not> is_ascii_digit c) s)"
    by (auto simp: list_all_iff dest: set_takeWhileD)
  show ?case
  proof (cases "rest = []")
    case True
    then show ?thesis
      using t by (subst re_split_digits.simps) (simp add: Let_def rest_def)
  next
    case False
    define d where "d = takeWhile is_ascii_digit rest"
    define r where "r = dropWhile is_ascii_digit rest"
    have hd: "is_ascii_digit (hd rest)"
      using hd_dropWhile [of "\<lambda>c. \<not> is_ascii_digit c" s] False by (simp add: rest_def)
    then have d_ne: "d \<noteq> []"
      using False by (cases rest) (auto simp: d_def)
    have d_all: "list_all is_ascii_digit d"
      by (auto simp: d_def list_all_iff dest: set_takeWhileD)
    have IH: "alternating (re_split_digits r)"
      using "1.IH" [OF refl refl] False by (simp add: rest_def r_def)
    have unfold: "re_split_digits s = takeWhile (\<lambda>c. \<not> is_ascii_digit c) s # d # re_split_digits r"
      using False by (subst re_split_digits.simps) (simp add: Let_def rest_def d_def r_def)
    have "runs_then_spans (d # re_split_digits r)"
    proof (cases "r = []")
      case True
      then have "re_split_digits r = [[]]"
        by (subst re_split_digits.simps) simp
      then show ?thesis using d_ne d_all by simp
    next
      case rne: False
      have "\<not> is_ascii_digit (hd r)"
        using hd_dropWhile [of is_ascii_digit rest] rne by (simp add: r_def)
      then have t_ne: "takeWhile (\<lambda>c. \<not> is_ascii_digit c) r \<noteq> []"
        using rne by (cases r) auto
      obtain t' tl where sp: "re_split_digits r = t' # tl" and t': "t' = takeWhile (\<lambda>c. \<not> is_ascii_digit c) r"
        using re_split_hd [of r] by blast
      show ?thesis
        using IH d_ne d_all t_ne unfolding sp t' [symmetric]
        by (cases tl) auto
    qed
    then show ?thesis
      using t by (simp add: unfold)
  qed
qed

lemma isdigit_plain:
  assumes "\<forall>c\<in>set span. c \<notin> {CHR 0xB2, CHR 0xB3, CHR 0xB9}"
  shows "isdigit span \<longleftrightarrow> span \<noteq> [] \<and> list_all is_ascii_digit span"
  using assms by (auto simp: isdigit_def is_digit_char_def list_all_iff)

lemma try_map_total:
  "(\<And>x. x \<in> set xs \<Longrightarrow> f x = Inr (g x)) \<Longrightarrow> try_map f xs = Inr (map g xs)"
  by (induction xs) auto

lemma natural_sort_key_plain:
  assumes "\<forall>c\<in>set s. c \<notin> {CHR 0xB2, CHR 0xB3, CHR 0xB9}"
  shows "natural_sort_key s = Inr (map segment (re_split_digits s))"
  unfolding natural_sort_key_def
proof (rule try_map_total)
  fix span assume "span \<in> set (re_split_digits s)"
  then have "set span \<subseteq> set s"
    using re_split_concat [of s] by (metis Sup_upper image_eqI set_concat)
  then have "\<forall>c\<in>set span. c \<notin> {CHR 0xB2, CHR 0xB3, CHR 0xB9}"
    using assms by blast
  from isdigit_plain [OF this]
  show "(if isdigit span
         then case py_int span of Inl e \<Rightarrow> Inl e | Inr i \<Rightarrow> Inr (SegInt i)
         else Inr (SegStr (lower span))) = Inr (segment span)"
    by (simp add: segment_def py_int_def)
qed


text \<open>
  What the key is on strings without a superscript digit, and the spec's example:
  \<open>item10\<close> comes after \<open>item2\<close>, its run being compared as the number 10.
\<close>

lemma natural_sort_key_structure:
  assumes "\<forall>c\<in>set s. c \<notin> {CHR 0xB2, CHR 0xB3, CHR 0xB9}"
  shows "natural_sort_key s = Inr (map segment (re_split_digits s))
         \<and> alternating (re_split_digits s) \<and> concat (re_split_digits s) = s"
  using natural_sort_key_plain [OF assms] re_split_alternating re_split_concat by simp

lemma natural_sort_items:
  "natural_sort_key ''item2'' = Inr [SegStr ''item'', SegInt 2, SegStr []]
   \<and> natural_sort_key ''item10'' = Inr [SegStr ''item'', SegInt 10, SegStr []]
   \<and> natural_sort_key ''item1'' = Inr [SegStr ''item'', SegInt 1, SegStr []]
   \<and> natural_sort_multiple_columns [[PStr ''item2''], [PStr ''item10''], [PStr ''item1'']] [0]
       = Inr [[PStr ''item1''], [PStr ''item2''], [PStr ''item10'']]"
  by code_simp

text \<open>
  Claim C1. The claim holds of the code except on a span made of superscript digits,
  where the code raises. The string of \<open>5\<close> and a superscript two (\<open>U+00B2\<close>) is
  split into the empty span, the run \<open>5\<close> and the span of the superscript;
  \<^verbatim>\<open>isdigit\<close> accepts that span, which is no digit run of the pattern, and
  \<^verbatim>\<open>int\<close> rejects it with \<^verbatim>\<open>ValueError\<close>, so the key is not computed and a sort
  over such a cell fails.
\<close>

theorem natural_sort_key_superscript:
  "re_split_digits [CHR ''5'', CHR 0xB2] = [[], ''5'', [CHR 0xB2]]
   \<and> natural_sort_key [CHR ''5'', CHR 0xB2]
       = Inl (ValueError ''invalid literal for int() with base 10'')
   \<and> natural_sort_key [CHR 0xB2] = Inl (ValueError ''invalid literal for int() with base 10'')
   \<and> natural_sort_multiple_columns [[PStr ''item1''], [PStr [CHR ''5'', CHR 0xB2]]] [0]
       = Inl (ValueError ''invalid literal for int() with base 10'')"
  by code_simp

section \<open>Properties of the formatting rules\<close>

lemma setdefault_get:
  "dict_get (setdefault d k v) k = Some (case dict_get d k of None \<Rightarrow> v | Some x \<Rightarrow> x)"
  by (simp add: setdefault_def dict_get_set split: option.splits)

lemma rule_field_dict: "is_dict r \<Longrightarrow> dict_get_item r key = Inr (rule_field r key)"
  by (cases r) (simp_all add: rule_field_def)

lemma rule_incomplete_iff: "rule_incomplete r \<longleftrightarrow> \<not> rule_well_formed r"
  by (auto simp: rule_incomplete_def rule_well_formed_def)

text \<open>
  The loop over the first rules of a batch, when the colour of each of them that passes
  the guard is a string: induction on these rules, the wrapper and the rules already
  stored generalised. The loop goes on with the remaining rules from a wrapper that has
  one entry more for each rule that passed the guard and one warning more for each that
  did not.
\<close>

lemma add_rules_prefix:
  assumes "dict_get (table_styles w) n = Some l"
    and "list_all is_dict pre"
    and "\<forall>r\<in>set pre. rule_well_formed r \<longrightarrow> colour_is_string r"
  shows "add_rules w n (pre @ rest) =
           add_rules
             (w\<lparr>table_styles :=
                  dict_set (table_styles w) n (l @ map rule_entry (filter rule_well_formed pre)),
                stdout := stdout w
                  @ map (\<lambda>_. ''Skipping Formatting - Missing formula and/or bg_color!'')
                      (filter rule_incomplete pre)\<rparr>)
             n rest"
  using assms
proof (induction pre arbitrary: w l)
  case Nil
  then show ?case by (simp add: dict_set_same)
next
  case (Cons r rs)
  have d: "is_dict r" and ds: "list_all is_dict rs" using Cons.prems(2) by simp_all
  have typed: "\<forall>r\<in>set rs. rule_well_formed r \<longrightarrow> colour_is_string r"
    using Cons.prems(3) by simp
  note f = rule_field_dict [OF d]
  show ?case
  proof (cases "rule_well_formed r")
    case False
    then have inc: "rule_incomplete r" by (simp add: rule_incomplete_iff)
    define w' where
      "w' = w\<lparr>stdout := stdout w @ [''Skipping Formatting - Missing formula and/or bg_color!'']\<rparr>"
    have step: "add_rules w n ((r # rs) @ rest) = add_rules w' n (rs @ rest)"
      using False by (auto simp: f rule_well_formed_def w'_def)
    have get: "dict_get (table_styles w') n = Some l"
      using Cons.prems(1) by (simp add: w'_def)
    show ?thesis
      unfolding step Cons.IH [OF get ds typed]
      using False inc by (simp add: w'_def)
  next
    case True
    then have ninc: "\<not> rule_incomplete r" by (simp add: rule_incomplete_iff)
    from True Cons.prems(3) have "colour_is_string r" by simp
    then obtain s where bg: "rule_field r ''bg_color'' = PStr s"
      by (auto simp: colour_is_string_def split: pyval.splits)
    from True bg have s: "s \<noteq> []" and fm: "truthy (rule_field r ''formula'')"
      by (simp_all add: rule_well_formed_def)
    define w' where
      "w' = w\<lparr>table_styles := dict_set (table_styles w) n (l @ [rule_entry r])\<rparr>"
    have step: "add_rules w n ((r # rs) @ rest) = add_rules w' n (rs @ rest)"
      using Cons.prems(1) bg s fm
      by (simp add: f append_table_style_def w'_def rule_entry_def)
    have get: "dict_get (table_styles w') n = Some (l @ [rule_entry r])"
      by (simp add: w'_def dict_get_set)
    show ?thesis
      unfolding step Cons.IH [OF get ds typed]
      using True ninc by (simp add: w'_def dict_set_set)
  qed
qed

lemma add_rules_result:
  assumes "dict_get (table_styles w) n = Some l"
    and "list_all is_dict rs"
    and "\<forall>r\<in>set rs. rule_well_formed r \<longrightarrow> colour_is_string r"
  shows "add_rules w n rs =
           (Inr (),
            w\<lparr>table_styles :=
                 dict_set (table_styles w) n (l @ map rule_entry (filter rule_well_formed rs)),
               stdout := stdout w
                 @ map (\<lambda>_. ''Skipping Formatting - Missing formula and/or bg_color!'')
                     (filter rule_incomplete rs)\<rparr>)"
  using add_rules_prefix [OF assms, of "[]"] by simp

text \<open>
  A rule that passes the guard with a colour that is not a string ends the call:
  \<^verbatim>\<open>bg_color.lstrip\<close> raises \<^verbatim>\<open>AttributeError\<close>. The rules before it have been
  handled; the rules after it are neither skipped nor recorded.
\<close>

lemma add_rules_non_string_colour:
  assumes "dict_get (table_styles w) n = Some l"
    and "list_all is_dict pre"
    and "\<forall>r\<in>set pre. rule_well_formed r \<longrightarrow> colour_is_string r"
    and "is_dict bad" and "rule_well_formed bad" and "\<not> colour_is_string bad"
  shows "add_rules w n (pre @ bad # post) =
           (Inl (AttributeError ''object has no attribute lstrip''),
            w\<lparr>table_styles :=
                 dict_set (table_styles w) n (l @ map rule_entry (filter rule_well_formed pre)),
               stdout := stdout w
                 @ map (\<lambda>_. ''Skipping Formatting - Missing formula and/or bg_color!'')
                     (filter rule_incomplete pre)\<rparr>)"
proof -
  have "lstrip_hash (rule_field bad ''bg_color'') = Inl (AttributeError ''object has no attribute lstrip'')"
    using assms(6) by (cases "rule_field bad ''bg_color''") (simp_all add: colour_is_string_def)
  then have "add_rules w' n (bad # post)
               = (Inl (AttributeError ''object has no attribute lstrip''), w')" for w'
    using assms(5) by (simp add: rule_field_dict [OF assms(4)] rule_well_formed_def)
  then show ?thesis
    unfolding add_rules_prefix [OF assms(1-3)] .
qed

text \<open>
  Claim C8 as the spec states it fails on a batch in which a rule passes the guard with
  a colour that is not a string. In the batch of a rule with the colour \<open>7\<close>, a rule
  without \<^verbatim>\<open>bg_color\<close> and a rule with formula and colour string, the first rule
  raises \<^verbatim>\<open>AttributeError\<close>: the second rule is not skipped with a warning and the
  third, which is well formed, is not recorded.
\<close>

theorem conditional_format_int_colour:
  "list_all is_dict
     [PDict [(PStr ''formula'', PList [PStr ''$A2=1'']), (PStr ''bg_color'', PInt 7)],
      PDict [(PStr ''formula'', PList [PStr ''$A2=2''])],
      PDict [(PStr ''formula'', PList [PStr ''$A2=3'']), (PStr ''bg_color'', PStr ''#E6B8B7'')]]
   \<and> rule_incomplete (PDict [(PStr ''formula'', PList [PStr ''$A2=2''])])
   \<and> rule_well_formed
        (PDict [(PStr ''formula'', PList [PStr ''$A2=3'']), (PStr ''bg_color'', PStr ''#E6B8B7'')])
   \<and> conditional_format empty_wrapper ''Volumes''
        (PList
          [PDict [(PStr ''formula'', PList [PStr ''$A2=1'']), (PStr ''bg_color'', PInt 7)],
           PDict [(PStr ''formula'', PList [PStr ''$A2=2''])],
           PDict [(PStr ''formula'', PList [PStr ''$A2=3'']),
                  (PStr ''bg_color'', PStr ''#E6B8B7'')]])
       = (Inl (AttributeError ''object has no attribute lstrip''),
          empty_wrapper\<lparr>table_styles := [(''Volumes'', [])]\<rparr>)
   \<and> recorded_rules (empty_wrapper\<lparr>table_styles := [(''Volumes'', [])]\<rparr>) ''Volumes'' = []
   \<and> stdout (empty_wrapper\<lparr>table_styles := [(''Volumes'', [])]\<rparr>) = []"
  by (simp add: rule_incomplete_def rule_well_formed_def rule_field_def conditional_format_def
        setdefault_def dict_get_def empty_wrapper_def recorded_rules_def)

text \<open>
  Claim C8, as the code has it. When the rules are not a list of dictionaries, the call
  prints its warning and changes nothing else, so no rule is recorded. When they are,
  and the colour of every rule that has a non-empty formula and a non-empty
  \<^verbatim>\<open>bg_color\<close> is a string, the call returns, the sheet's recorded rules grow by one
  entry for each such rule, in order, and one warning is printed for each rule that
  lacks a non-empty formula or a non-empty \<^verbatim>\<open>bg_color\<close>.
\<close>

theorem conditional_format_string_colours:
  "(\<not> (\<exists>rs. rules = PList rs \<and> list_all is_dict rs) \<longrightarrow>
      conditional_format w n rules =
        (Inr (), w\<lparr>stdout := stdout w
                     @ [''List of Dicts Reqd for Conditional Formatting - Ignoring!'']\<rparr>)
      \<and> recorded_rules (snd (conditional_format w n rules)) s = recorded_rules w s)
   \<and> (rules = PList rs \<and> list_all is_dict rs
        \<and> (\<forall>r\<in>set rs. rule_well_formed r \<longrightarrow> colour_is_string r) \<longrightarrow>
      fst (conditional_format w n rules) = Inr ()
      \<and> recorded_rules (snd (conditional_format w n rules)) n
          = recorded_rules w n @ map rule_entry (filter rule_well_formed rs)
      \<and> stdout (snd (conditional_format w n rules))
          = stdout w @ map (\<lambda>_. ''Skipping Formatting - Missing formula and/or bg_color!'')
                         (filter rule_incomplete rs))"
proof (intro conjI impI)
  assume bad: "\<not> (\<exists>rs. rules = PList rs \<and> list_all is_dict rs)"
  then show rej: "conditional_format w n rules =
        (Inr (), w\<lparr>stdout := stdout w
                     @ [''List of Dicts Reqd for Conditional Formatting - Ignoring!'']\<rparr>)"
    by (cases rules) (auto simp: conditional_format_def)
  show "recorded_rules (snd (conditional_format w n rules)) s = recorded_rules w s"
    by (simp add: rej recorded_rules_def)
next
  assume ok: "rules = PList rs \<and> list_all is_dict rs
                \<and> (\<forall>r\<in>set rs. rule_well_formed r \<longrightarrow> colour_is_string r)"
  define w1 where "w1 = w\<lparr>table_styles := setdefault (table_styles w) n []\<rparr>"
  have get: "dict_get (table_styles w1) n = Some (recorded_rules w n)"
    by (simp add: w1_def setdefault_get recorded_rules_def split: option.splits)
  have call: "conditional_format w n rules = add_rules w1 n rs"
    using ok by (simp add: conditional_format_def w1_def)
  note res = ok [THEN conjunct2, THEN conjunct1] ok [THEN conjunct2, THEN conjunct2]
  show "fst (conditional_format w n rules) = Inr ()"
    unfolding call add_rules_result [OF get res] by simp
  show "recorded_rules (snd (conditional_format w n rules)) n
          = recorded_rules w n @ map rule_entry (filter rule_well_formed rs)"
    unfolding call add_rules_result [OF get res]
    by (simp add: recorded_rules_def dict_get_set)
  show "stdout (snd (conditional_format w n rules))
          = stdout w @ map (\<lambda>_. ''Skipping Formatting - Missing formula and/or bg_color!'')
                         (filter rule_incomplete rs)"
    unfolding call add_rules_result [OF get res]
    by (simp add: w1_def)
qed

theorem conditional_format_string_colours_witness:
  "recorded_rules
     (snd (conditional_format empty_wrapper ''Volumes''
        (PList [PDict [(PStr ''formula'', PList [PStr ''$A2=1''])],
                PDict [(PStr ''formula'', PList [PStr ''$A2=2'']),
                       (PStr ''bg_color'', PStr ''#E6B8B7'')]])))
     ''Volumes''
   = [\<lparr>rule_type = ''expression'', fill_bgColor = ''E6B8B7'',
       formula = PList [PStr ''$A2=2''], stopIfTrue = False\<rparr>]
   \<and> stdout
       (snd (conditional_format empty_wrapper ''Volumes''
          (PList [PDict [(PStr ''formula'', PList [PStr ''$A2=1''])],
                  PDict [(PStr ''formula'', PList [PStr ''$A2=2'']),
                         (PStr ''bg_color'', PStr ''#E6B8B7'')]])))
     = [''Skipping Formatting - Missing formula and/or bg_color!'']
   \<and> recorded_rules (snd (conditional_format empty_wrapper ''Volumes'' (PStr ''$A2=1'')))
       ''Volumes'' = []"
proof -
  define r1 where "r1 = PDict [(PStr ''formula'', PList [PStr ''$A2=1''])]"
  define r2 where "r2 = PDict [(PStr ''formula'', PList [PStr ''$A2=2'']),
                               (PStr ''bg_color'', PStr ''#E6B8B7'')]"
  have i1: "rule_incomplete r1" and w1: "\<not> rule_well_formed r1"
    by (simp_all add: r1_def rule_incomplete_def rule_well_formed_def rule_field_def)
  have w2: "rule_well_formed r2" and i2: "\<not> rule_incomplete r2" and c2: "colour_is_string r2"
    by (simp_all add: r2_def rule_well_formed_def rule_incomplete_def colour_is_string_def
          rule_field_def)
  have e2: "rule_entry r2 = \<lparr>rule_type = ''expression'', fill_bgColor = ''E6B8B7'',
       formula = PList [PStr ''$A2=2''], stopIfTrue = False\<rparr>"
    by (simp add: r2_def rule_entry_def rule_field_def expression_rule_def)
  have none: "recorded_rules empty_wrapper ''Volumes'' = []"
    by (simp add: recorded_rules_def empty_wrapper_def dict_get_def)
  have out: "stdout empty_wrapper = []"
    by (simp add: empty_wrapper_def)
  have ds: "list_all is_dict [r1, r2]"
    by (simp add: r1_def r2_def)
  have "recorded_rules (snd (conditional_format empty_wrapper ''Volumes'' (PList [r1, r2])))
          ''Volumes'' = [rule_entry r2]
        \<and> stdout (snd (conditional_format empty_wrapper ''Volumes'' (PList [r1, r2])))
          = [''Skipping Formatting - Missing formula and/or bg_color!'']"
    using conditional_format_string_colours
            [of "PList [r1, r2]" empty_wrapper "''Volumes''" "''Volumes''" "[r1, r2]"]
      i1 w1 w2 i2 c2 ds none out
    by simp
  moreover
  have "recorded_rules (snd (conditional_format empty_wrapper ''Volumes'' (PStr ''$A2=1'')))
          ''Volumes'' = []"
  proof -
    have nolist: "\<not> (\<exists>rs. PStr ''$A2=1'' = PList rs \<and> list_all is_dict rs)"
      by simp
    from conditional_format_string_colours
           [of "PStr ''$A2=1''" empty_wrapper "''Volumes''" "''Volumes''" "[]",
            THEN conjunct1, rule_format, OF nolist, THEN conjunct2]
    show ?thesis by (simp only: none)
  qed
  ultimately show ?thesis
    using e2 unfolding r1_def r2_def by simp
qed

section \<open>Properties of the export\<close>

lemma bind_simps [simp]:
  "bind None f = None"
  "bind (Some (Inl e)) f = Some (Inl e)"
  "bind (Some (Inr x)) f = f x"
  by (simp_all add: bind_def)

lemma bind_returns:
  "bind m f = Some (Inr y) \<longleftrightarrow> (\<exists>x. m = Some (Inr x) \<and> f x = Some (Inr y))"
  by (auto simp: bind_def split: option.splits sum.splits)

lemma returning_returns: "returning m = Some (Inr x) \<longleftrightarrow> m = Some x"
  by (auto simp: returning_def)

lemma first_index_None: "first_index P xs = None \<longleftrightarrow> (\<forall>x\<in>set xs. \<not> P x)"
  by (induction xs) auto

lemma first_index_Some:
  "first_index P xs = Some i \<longleftrightarrow> i < length xs \<and> P (xs ! i) \<and> (\<forall>j<i. \<not> P (xs ! j))"
proof (induction xs arbitrary: i)
  case Nil
  then show ?case by simp
next
  case (Cons x xs)
  show ?case
  proof (cases "P x")
    case True
    then show ?thesis by (cases i) auto
  next
    case False
    show ?thesis
    proof (cases i)
      case 0
      with False show ?thesis by auto
    next
      case (Suc k)
      have "(\<forall>j<Suc k. \<not> P ((x # xs) ! j)) \<longleftrightarrow> (\<forall>j<k. \<not> P (xs ! j))"
        using False by (auto simp: less_Suc_eq_0_disj)
      with False Suc Cons.IH [of k] show ?thesis by auto
    qed
  qed
qed

lemma col_to_excel_returns: "0 \<le> n \<Longrightarrow> \<exists>letters. col_to_excel n = Some letters"
  using col_loop_spec [of n "[]"] by (auto simp: col_to_excel_def)

text \<open>
  Claim C4, as the code has it. For a sheet with a configured freeze target, the first
  row is scanned for a cell equal to the target. Without one the call raises
  \<^verbatim>\<open>RuntimeError('Invalid Header')\<close>. Otherwise, with the first match at list
  position \<open>i\<close>, that is in column \<open>i + 1\<close> of row 1, the panes are frozen at the cell
  in column \<open>i + 2\<close> of row 1: one column right of the header cell and in its row, so
  that the columns up to the named one are frozen and no row is.
\<close>

theorem freeze_columns_after_header:
  assumes "dict_get (frozen_columns w) (title ws) = Some name"
    and "cells ws = header_row # rest"
  shows "(PStr name \<notin> set header_row \<longrightarrow>
            freeze_columns w ws = Some (Inl (RuntimeError ''Invalid Header'')))
       \<and> (PStr name \<in> set header_row \<longrightarrow>
            (\<exists>i anchor. i < length header_row \<and> header_row ! i = PStr name
               \<and> (\<forall>j<i. header_row ! j \<noteq> PStr name)
               \<and> coordinate (i + 2) 1 = Some anchor
               \<and> freeze_columns w ws = Some (Inr (ws\<lparr>freeze_panes := Some anchor\<rparr>))))"
proof (intro conjI impI)
  assume "PStr name \<notin> set header_row"
  then have "first_index (\<lambda>v. v = PStr name) header_row = None"
    by (auto simp: first_index_None)
  then show "freeze_columns w ws = Some (Inl (RuntimeError ''Invalid Header''))"
    using assms by (simp add: freeze_columns_def)
next
  assume "PStr name \<in> set header_row"
  then have "first_index (\<lambda>v. v = PStr name) header_row \<noteq> None"
    by (auto simp: first_index_None)
  then obtain i where i: "first_index (\<lambda>v. v = PStr name) header_row = Some i"
    by auto
  obtain letters where letters: "col_to_excel (int i + 2) = Some letters"
    using col_to_excel_returns [of "int i + 2"] by auto
  have one: "dec_nat (Suc 0) = ''1''"
    by code_simp
  have "coordinate (i + 2) 1 = Some (letters @ ''1'')"
    using letters by (simp add: coordinate_def one add.commute)
  moreover have "freeze_columns w ws = Some (Inr (ws\<lparr>freeze_panes := Some (letters @ ''1'')\<rparr>))"
    using assms i letters
    by (simp add: freeze_columns_def Let_def returning_def add.commute add.left_commute)
  ultimately show "\<exists>i anchor. i < length header_row \<and> header_row ! i = PStr name
               \<and> (\<forall>j<i. header_row ! j \<noteq> PStr name)
               \<and> coordinate (i + 2) 1 = Some anchor
               \<and> freeze_columns w ws = Some (Inr (ws\<lparr>freeze_panes := Some anchor\<rparr>))"
    using i by (auto simp: first_index_Some)
qed

theorem freeze_columns_after_header_witness:
  "freeze_columns example_wrapper example_sheet
     = Some (Inr (example_sheet\<lparr>freeze_panes := Some ''B1''\<rparr>))
   \<and> freeze_columns (freeze_column_after example_wrapper ''Instances'' ''Zone'') example_sheet
     = Some (Inl (RuntimeError ''Invalid Header''))"
proof -
  define hs where "hs = [PStr ''Region'', PStr ''Instance ID'']"
  define rest where "rest = [[PStr ''us-east-1'', PStr ''i-2''], [PStr ''eu-west-1'', PStr ''i-10'']]"
  have cells: "cells example_sheet = hs # rest"
    by (simp add: example_sheet_def new_sheet_def hs_def rest_def)
  have target: "dict_get (frozen_columns example_wrapper) (title example_sheet) = Some ''Region''"
    by code_simp
  have other: "dict_get (frozen_columns (freeze_column_after example_wrapper ''Instances'' ''Zone''))
                 (title example_sheet) = Some ''Zone''"
    by code_simp
  have "PStr ''Region'' \<in> set hs"
    by (simp add: hs_def)
  with freeze_columns_after_header [OF target cells]
  obtain i anchor where i: "\<forall>j<i. hs ! j \<noteq> PStr ''Region''"
    and anchor: "coordinate (i + 2) 1 = Some anchor"
    and res: "freeze_columns example_wrapper example_sheet
               = Some (Inr (example_sheet\<lparr>freeze_panes := Some anchor\<rparr>))"
    by blast
  have i0: "i = 0"
  proof (rule ccontr)
    assume "i \<noteq> 0"
    with i have "hs ! 0 \<noteq> PStr ''Region''" by blast
    then show False by (simp add: hs_def)
  qed
  have "coordinate (i + 2) 1 = Some ''B1''"
    unfolding i0 by code_simp
  with anchor have "anchor = ''B1''"
    by simp
  moreover have "PStr ''Zone'' \<notin> set hs"
    by (simp add: hs_def)
  ultimately show ?thesis
    using res freeze_columns_after_header [OF other cells] by simp
qed

text \<open>
  Claim C4 as the spec states it puts the anchor directly below the matched header
  cell and one column right of it. In the example the header \<open>Region\<close> is the cell
  \<open>A1\<close>; the cell below it and one column right is \<open>B2\<close>, and the code freezes at
  \<open>B1\<close>.
\<close>

theorem freeze_columns_not_below_header:
  "cells example_sheet ! 0 ! 0 = PStr ''Region''
   \<and> coordinate (1 + 1) (1 + 1) = Some ''B2''
   \<and> freeze_columns example_wrapper example_sheet
       = Some (Inr (example_sheet\<lparr>freeze_panes := Some ''B1''\<rparr>))
   \<and> freeze_columns example_wrapper example_sheet
       \<noteq> Some (Inr (example_sheet\<lparr>freeze_panes := coordinate (1 + 1) (1 + 1)\<rparr>))"
proof -
  have a: "cells example_sheet ! 0 ! 0 = PStr ''Region''"
    by (simp add: example_sheet_def new_sheet_def)
  have b: "coordinate (1 + 1) (1 + 1) = Some ''B2''"
    by code_simp
  have c: "freeze_columns example_wrapper example_sheet
       = Some (Inr (example_sheet\<lparr>freeze_panes := Some ''B1''\<rparr>))"
    by code_simp
  have "freeze_panes (example_sheet\<lparr>freeze_panes := Some ''B1''\<rparr>)
          \<noteq> freeze_panes (example_sheet\<lparr>freeze_panes := Some ''B2''\<rparr>)"
    by simp
  then have "example_sheet\<lparr>freeze_panes := Some ''B1''\<rparr>
               \<noteq> example_sheet\<lparr>freeze_panes := Some ''B2''\<rparr>"
    by metis
  with a b c show ?thesis by simp
qed

subsection \<open>Sheets without rows\<close>

lemma header_rules_title:
  "header_rules hs rows header rs ws = Some (Inr ws') \<Longrightarrow> title ws' = title ws"
proof (induction rs arbitrary: ws)
  case Nil
  then show ?case by simp
next
  case (Cons r rs)
  then show ?case
    by (auto simp: bind_returns split: option.splits)
qed

lemma cell_style_rules_title:
  "cell_style_rules hs rows styles ws = Some (Inr ws') \<Longrightarrow> title ws' = title ws"
proof (induction styles arbitrary: ws)
  case Nil
  then show ?case by simp
next
  case (Cons p styles)
  obtain header rs where p: "p = (header, rs)" by (cases p)
  from Cons.prems obtain ws1 where
    "header_rules hs rows header rs ws = Some (Inr ws1)"
    "cell_style_rules hs rows styles ws1 = Some (Inr ws')"
    by (auto simp: p bind_returns)
  then show ?case
    using Cons.IH header_rules_title by metis
qed

lemma freeze_columns_title:
  "freeze_columns w ws = Some (Inr ws') \<Longrightarrow> title ws' = title ws"
  by (auto simp: freeze_columns_def bind_returns Let_def
           split: option.splits list.splits)

lemma export_sheet_title:
  assumes "export_sheet w n sd = Some (Inr (ws, w'))"
  shows "title ws = n"
proof -
  from assms obtain w1 merged max_col ws3 ws5 where
    cs: "cell_style_rules (sheet_headers w1 n) (max_row ((new_sheet n)\<lparr>cells := merged\<rparr>))
           (case dict_get (cell_styles w1) n of None \<Rightarrow> [] | Some m \<Rightarrow> m)
           ((new_sheet n)\<lparr>cells := merged,
              tables := tables ((new_sheet n)\<lparr>cells := merged\<rparr>)
                @ [banded_table w1 n max_col (max_row ((new_sheet n)\<lparr>cells := merged\<rparr>))]\<rparr>)
         = Some (Inr ws3)"
    and fr: "freeze_columns w1
           (ws3\<lparr>conditional_formatting := conditional_formatting ws3
                  @ map (\<lambda>style. (''A2:'' @ max_col
                                      @ dec_nat (max_row ((new_sheet n)\<lparr>cells := merged\<rparr>)), style))
                      (recorded_rules w1 n)\<rparr>) = Some (Inr ws5)"
    and ws: "ws = ws5"
    by (auto simp: export_sheet_def bind_returns Let_def)
  have "title ws3 = n"
    using cell_style_rules_title [OF cs] by (simp add: new_sheet_def)
  then show ?thesis
    using freeze_columns_title [OF fr] ws by simp
qed

text \<open>
  The loop over the store: the sheets it adds to the workbook are, in order, the
  entries of the store that have a row.
\<close>

lemma export_sheets_titles:
  "export_sheets w items wb = Some (Inr (wb', w')) \<Longrightarrow>
     map title wb' = map title wb @ map fst (filter (\<lambda>(n, sd). data sd \<noteq> []) items)"
proof (induction items arbitrary: w wb)
  case Nil
  then show ?case by simp
next
  case (Cons item items)
  obtain n sd where item: "item = (n, sd)" by (cases item)
  show ?case
  proof (cases "data sd = []")
    case True
    with Cons.prems Cons.IH show ?thesis
      by (simp add: item)
  next
    case False
    with Cons.prems obtain ws w1 where
      one: "export_sheet w n sd = Some (Inr (ws, w1))"
      and rest: "export_sheets w1 items (wb @ [ws]) = Some (Inr (wb', w'))"
      by (auto simp: item bind_returns)
    from Cons.IH [OF rest] export_sheet_title [OF one] False show ?thesis
      by (simp add: item)
  qed
qed

text \<open>
  Claim C7. In the document that an export saves, the sheets are the sheets of the
  store that have at least one row, in the store's order; a sheet of the store whose
  row list is empty, with or without headers, is not among them. When no sheet has a
  row, no document is saved.
\<close>

theorem export_skips_empty_sheets:
  assumes "export_excel w = Some (Inr (saved, w'))"
  shows "(case saved of
            None \<Rightarrow> \<forall>(n, sd)\<in>set (output_data w). data sd = []
          | Some doc \<Rightarrow>
              map title doc = map fst (filter (\<lambda>(n, sd). data sd \<noteq> []) (output_data w))
              \<and> (\<forall>(n, sd)\<in>set (output_data w).
                    distinct (map fst (output_data w)) \<and> data sd = [] \<longrightarrow>
                    n \<notin> set (map title doc)))"
proof -
  from assms obtain wb w1 where
    loop: "export_sheets w (output_data w) [] = Some (Inr (wb, w1))"
    and saved: "saved = (if wb = [] then None else Some wb)"
    by (auto simp: export_excel_def bind_returns split: if_splits)
  note titles = export_sheets_titles [OF loop, simplified]
  show ?thesis
  proof (cases "wb = []")
    case True
    with titles have "filter (\<lambda>(n, sd). data sd \<noteq> []) (output_data w) = []"
      by simp
    then have "\<forall>(n, sd)\<in>set (output_data w). data sd = []"
      by (auto simp: filter_empty_conv)
    with True saved show ?thesis by simp
  next
    case False
    have "n \<notin> set (map title wb)"
      if "(n, sd) \<in> set (output_data w)" "distinct (map fst (output_data w))" "data sd = []"
      for n sd
    proof
      assume "n \<in> set (map title wb)"
      then obtain sd' where "(n, sd') \<in> set (output_data w)" "data sd' \<noteq> []"
        unfolding titles by auto
      with that(1,2) have "sd' = sd"
        by (meson eq_key_imp_eq_value)
      with that(3) \<open>data sd' \<noteq> []\<close> show False by simp
    qed
    with False saved titles show ?thesis by auto
  qed
qed

theorem export_skips_empty_sheets_witness:
  "\<exists>doc w'. export_excel example_wrapper = Some (Inr (Some doc, w'))
     \<and> map title doc = [''Instances'']
     \<and> sheet_headers example_wrapper ''Empty'' = [PStr ''A'']
     \<and> sheet_rows example_wrapper ''Empty'' = []
     \<and> ''Empty'' \<notin> set (map title doc)"
proof -
  have "map_option (map_sum id (\<lambda>(saved, w'). saved \<noteq> None)) (export_excel example_wrapper)
          = Some (Inr True)"
    by code_simp
  then obtain doc w' where run: "export_excel example_wrapper = Some (Inr (Some doc, w'))"
    by (cases "export_excel example_wrapper") (auto simp: map_sum_def split: sum.splits)
  have stored: "map fst (filter (\<lambda>(n, sd). data sd \<noteq> []) (output_data example_wrapper))
                  = [''Instances'']"
    by code_simp
  have h: "sheet_headers example_wrapper ''Empty'' = [PStr ''A'']"
    by code_simp
  have r: "sheet_rows example_wrapper ''Empty'' = []"
    by code_simp
  from export_skips_empty_sheets [OF run] stored
  have t: "map title doc = [''Instances'']"
    by simp
  have ne: "''Empty'' \<notin> set (map title doc)"
    unfolding t by simp
  show ?thesis
    by (rule exI [of _ doc], rule exI [of _ w']) (intro conjI run h r t ne)
qed

subsection \<open>The export returns or raises\<close>

text \<open>
  Every column that the export converts to letters is positive, so the one unbounded
  loop always exits: an export never fails to return.
\<close>

lemma bind_Some:
  assumes "\<exists>r. m = Some r" and "\<And>x. m = Some (Inr x) \<Longrightarrow> \<exists>r. f x = Some r"
  shows "\<exists>r. bind m f = Some r"
  using assms by (auto simp: bind_def split: option.splits sum.splits)

lemma letters_Some: "0 \<le> n \<Longrightarrow> \<exists>r. returning (col_to_excel n) = Some r"
  using col_to_excel_returns [of n] by (auto simp: returning_def)

lemma freeze_columns_Some: "\<exists>r. freeze_columns w ws = Some r"
proof (cases "dict_get (frozen_columns w) (title ws)")
  case None
  then show ?thesis by (simp add: freeze_columns_def)
next
  case (Some name)
  show ?thesis
  proof (cases "cells ws")
    case Nil
    with Some show ?thesis by (simp add: freeze_columns_def)
  next
    case (Cons header_cells rest)
    show ?thesis
    proof (cases "first_index (\<lambda>v. v = PStr name) header_cells")
      case None
      with Some Cons show ?thesis by (simp add: freeze_columns_def)
    next
      case (Some i)
      have "\<exists>r. bind (returning (col_to_excel (int i + 1 + 1)))
                  (\<lambda>letters. Some (Inr (ws\<lparr>freeze_panes := Some (letters @ ''1'')\<rparr>))) = Some r"
        by (rule bind_Some [OF letters_Some]) simp_all
      with \<open>dict_get (frozen_columns w) (title ws) = Some name\<close> Cons Some show ?thesis
        by (simp add: freeze_columns_def Let_def)
    qed
  qed
qed

lemma header_rules_Some: "\<exists>r. header_rules hs rows header rs ws = Some r"
proof (induction rs arbitrary: ws)
  case Nil
  show ?case by simp
next
  case (Cons r rs)
  show ?case
  proof (cases "first_index (\<lambda>h. h = PStr header) hs")
    case None
    then show ?thesis by simp
  next
    case (Some i)
    have "\<exists>res. bind (returning (col_to_excel (int i + 1)))
            (\<lambda>header_col.
               header_rules hs rows header rs
                 (ws\<lparr>conditional_formatting := conditional_formatting ws
                       @ [(header_col @ ''2:'' @ header_col @ dec_nat rows,
                           expression_rule (dropWhile (\<lambda>c. c = CHR ''#'') (bg_color r))
                             (PList [PStr (rule r)]))]\<rparr>)) = Some res"
      by (rule bind_Some [OF letters_Some]) (simp_all add: Cons.IH)
    with Some show ?thesis by simp
  qed
qed

lemma cell_style_rules_Some: "\<exists>r. cell_style_rules hs rows styles ws = Some r"
proof (induction styles arbitrary: ws)
  case Nil
  show ?case by simp
next
  case (Cons p styles)
  obtain header rs where p: "p = (header, rs)" by (cases p)
  show ?case
    unfolding p cell_style_rules.simps
    by (rule bind_Some [OF header_rules_Some]) (rule Cons.IH)
qed

lemma export_sheet_Some: "\<exists>r. export_sheet w n sd = Some r"
  unfolding export_sheet_def Let_def
  by (intro bind_Some letters_Some cell_style_rules_Some freeze_columns_Some) simp_all

lemma export_sheets_Some: "\<exists>r. export_sheets w items wb = Some r"
proof (induction items arbitrary: w wb)
  case Nil
  show ?case by simp
next
  case (Cons item items)
  obtain n sd where item: "item = (n, sd)" by (cases item)
  show ?case
  proof (cases "data sd = []")
    case True
    then show ?thesis by (simp add: item Cons.IH)
  next
    case False
    have "\<exists>r. bind (export_sheet w n sd)
            (\<lambda>(current_sheet, w'). export_sheets w' items (wb @ [current_sheet])) = Some r"
    proof (rule bind_Some [OF export_sheet_Some])
      fix x assume "export_sheet w n sd = Some (Inr x)"
      obtain ws w' where x: "x = (ws, w')" by (cases x)
      show "\<exists>r. (case x of (current_sheet, w') \<Rightarrow>
                     export_sheets w' items (wb @ [current_sheet])) = Some r"
        unfolding x by (simp add: Cons.IH)
    qed
    with False show ?thesis by (simp add: item)
  qed
qed

lemma export_excel_returns_or_raises: "\<exists>r. export_excel w = Some r"
  unfolding export_excel_def
proof (rule bind_Some [OF export_sheets_Some])
  fix x :: "worksheet list \<times> wrapper"
  obtain wb w' where x: "x = (wb, w')" by (cases x)
  show "\<exists>r. (case x of
           (excel_workbook, w') \<Rightarrow>
             if excel_workbook = []
             then Some (Inr (None,
                    w'\<lparr>stdout := stdout w'
                         @ [''FATAL: No Sheets Containing Data - No Excel Doc Generated!'']\<rparr>))
             else Some (Inr (Some excel_workbook, w'))) = Some r"
    unfolding x by simp
qed

text \<open>
  The example store exports to one sheet: the header row and the two rows, a table over
  \<open>A1:B3\<close>, the panes frozen at \<open>B1\<close>.
\<close>

lemma export_example:
  "map_option
     (map_sum id
        (\<lambda>(saved, w').
           map_option
             (map (\<lambda>ws. (title ws, cells ws, map ref (tables ws), freeze_panes ws))) saved))
     (export_excel example_wrapper)
   = Some (Inr (Some
       [(''Instances'',
         [[PStr ''Region'', PStr ''Instance ID''],
          [PStr ''us-east-1'', PStr ''i-2''],
          [PStr ''eu-west-1'', PStr ''i-10'']],
         [''A1:B3''], Some ''B1'')]))"
  by code_simp

end
